theory Spec2Isabelle
  imports Main "HOL-Library.Sublist" "HOL-Library.AList"
begin

chapter \<open>Maintenance scripts of the expense portal: model and verification\<close>

text \<open>
  The repository holds three stand-alone Python scripts:
  \<^item> \<^verbatim>\<open>correcao_pos_migracao.py\<close>: adds the missing columns of seven tables and fills
    null values of a few of them (the "reconciliation");
  \<^item> \<^verbatim>\<open>migrate_melhorias_corrigido_v3.py\<close>: the migration proper, with the copy-and-rename
    rebuild of the \<^verbatim>\<open>users\<close> table and the seeding of default users, categories and a group;
  \<^item> \<^verbatim>\<open>correcao_sql_v2.py\<close>: textual substitutions over the application's source file.

  The scripts talk to SQLite through Python's \<^verbatim>\<open>sqlite3\<close> module. The engine is modelled at
  the level of tables, columns with their declared defaults, rows and index names. A
  statement fails when it names a missing table or column, creates a table that exists or
  adds a column that exists; besides, \<^verbatim>\<open>ALTER TABLE ... ADD COLUMN\<close> fails wherever the
  parameter \<open>refuse\<close> says so (a locked file, a name that differs only in case, ...).
  Integrity constraints (NOT NULL, UNIQUE, foreign keys) and type affinity are outside the
  model, and so is the text the scripts print beyond the report lines listed below.
\<close>

section \<open>The storage engine\<close>

datatype val = Null | IntV int | TextV string

type_synonym row = "(string \<times> val) list"

text \<open>A table: its columns in declaration order, each with its DEFAULT (\<open>Null\<close> when none
  is declared), the column that is the INTEGER PRIMARY KEY (if any), and its rows.\<close>

record table =
  cols :: "(string \<times> val) list"
  pk :: "string option"
  rows :: "row list"

text \<open>A database: the tables by name, and the indexes as (index name, table name).\<close>

record db =
  tabs :: "string \<Rightarrow> table option"
  idxs :: "(string \<times> string) list"

datatype error =
    NoSuchTable string
  | NoSuchColumn string string
  | TableExists string
  | DuplicateColumn string string
  | AlterRefused string string
  | DataLoss nat nat

definition getv :: "row \<Rightarrow> string \<Rightarrow> val" where
  "getv r c = (case map_of r c of None \<Rightarrow> Null | Some v \<Rightarrow> v)"

definition col_names :: "table \<Rightarrow> string list" where
  "col_names T = map fst (cols T)"

definition put_table :: "string \<Rightarrow> table \<Rightarrow> db \<Rightarrow> db" where
  "put_table t T d = d\<lparr>tabs := (tabs d)(t \<mapsto> T)\<rparr>"

text \<open>\<^verbatim>\<open>ALTER TABLE t ADD COLUMN c type [DEFAULT v]\<close>. SQLite gives the new column its
  default in every existing row, \<open>Null\<close> when no default is declared.\<close>

definition sql_add_column ::
  "(string \<Rightarrow> string \<Rightarrow> bool) \<Rightarrow> string \<Rightarrow> string \<Rightarrow> val \<Rightarrow> db \<Rightarrow> error + db" where
  "sql_add_column refuse t c v d =
     (case tabs d t of
        None \<Rightarrow> Inl (NoSuchTable t)
      | Some T \<Rightarrow>
          if c \<in> set (col_names T) then Inl (DuplicateColumn t c)
          else if refuse t c then Inl (AlterRefused t c)
          else Inr (put_table t
                 (T\<lparr>cols := cols T @ [(c, v)], rows := map (AList.update c v) (rows T)\<rparr>) d))"

text \<open>\<^verbatim>\<open>UPDATE t SET c = v WHERE c IS NULL\<close>.\<close>

definition sql_update_null :: "string \<Rightarrow> string \<Rightarrow> val \<Rightarrow> db \<Rightarrow> error + db" where
  "sql_update_null t c v d =
     (case tabs d t of
        None \<Rightarrow> Inl (NoSuchTable t)
      | Some T \<Rightarrow>
          if c \<notin> set (col_names T) then Inl (NoSuchColumn t c)
          else Inr (put_table t
                 (T\<lparr>rows := map (\<lambda>r. if getv r c = Null then AList.update c v r else r) (rows T)\<rparr>) d))"

text \<open>\<^verbatim>\<open>SELECT COUNT(*) FROM t WHERE c IS NULL\<close>.\<close>

definition sql_count_null :: "string \<Rightarrow> string \<Rightarrow> db \<Rightarrow> error + nat" where
  "sql_count_null t c d =
     (case tabs d t of
        None \<Rightarrow> Inl (NoSuchTable t)
      | Some T \<Rightarrow>
          if c \<notin> set (col_names T) then Inl (NoSuchColumn t c)
          else Inr (length (filter (\<lambda>r. getv r c = Null) (rows T))))"

text \<open>\<^verbatim>\<open>SELECT COUNT(*) FROM t\<close>.\<close>

definition sql_count :: "string \<Rightarrow> db \<Rightarrow> error + nat" where
  "sql_count t d =
     (case tabs d t of None \<Rightarrow> Inl (NoSuchTable t) | Some T \<Rightarrow> Inr (length (rows T)))"

text \<open>\<^verbatim>\<open>CREATE TABLE t (...)\<close>, \<^verbatim>\<open>DROP TABLE t\<close> (which drops the table's indexes) and
  \<^verbatim>\<open>ALTER TABLE a RENAME TO b\<close> (which carries them over).\<close>

definition sql_create_table ::
  "string \<Rightarrow> (string \<times> val) list \<Rightarrow> string option \<Rightarrow> db \<Rightarrow> error + db" where
  "sql_create_table t cs k d =
     (if tabs d t \<noteq> None then Inl (TableExists t)
      else Inr (put_table t \<lparr>cols = cs, pk = k, rows = []\<rparr> d))"

definition sql_drop_table :: "string \<Rightarrow> db \<Rightarrow> error + db" where
  "sql_drop_table t d =
     (if tabs d t = None then Inl (NoSuchTable t)
      else Inr (d\<lparr>tabs := (tabs d)(t := None), idxs := filter (\<lambda>(n, u). u \<noteq> t) (idxs d)\<rparr>))"

definition sql_rename_table :: "string \<Rightarrow> string \<Rightarrow> db \<Rightarrow> error + db" where
  "sql_rename_table a b d =
     (case tabs d a of
        None \<Rightarrow> Inl (NoSuchTable a)
      | Some T \<Rightarrow>
          if tabs d b \<noteq> None then Inl (TableExists b)
          else Inr (d\<lparr>tabs := (tabs d)(a := None, b \<mapsto> T),
                      idxs := map (\<lambda>(n, u). (n, if u = a then b else u)) (idxs d)\<rparr>))"

text \<open>\<^verbatim>\<open>CREATE INDEX IF NOT EXISTS n ON t(c)\<close>: the table is looked up first, then the
  index name, then the column.\<close>

definition sql_create_index :: "string \<Rightarrow> string \<Rightarrow> string \<Rightarrow> db \<Rightarrow> error + db" where
  "sql_create_index n t c d =
     (case tabs d t of
        None \<Rightarrow> Inl (NoSuchTable t)
      | Some T \<Rightarrow>
          if n \<in> set (map fst (idxs d)) then Inr d
          else if c \<notin> set (col_names T) then Inl (NoSuchColumn t c)
          else Inr (d\<lparr>idxs := idxs d @ [(n, t)]\<rparr>))"

text \<open>The row id SQLite gives the next inserted row: one more than the largest id in use
  (the scripts delete no row; a table without an INTEGER PRIMARY KEY is taken to number
  its rows from 1).\<close>

definition next_rowid :: "table \<Rightarrow> int" where
  "next_rowid T =
     (case pk T of
        None \<Rightarrow> int (length (rows T)) + 1
      | Some k \<Rightarrow> 1 + foldr (\<lambda>r m. case getv r k of IntV i \<Rightarrow> max i m | _ \<Rightarrow> m) (rows T) 0)"

text \<open>\<^verbatim>\<open>INSERT INTO t (c1, ...) VALUES (v1, ...)\<close>, the pairs given as \<open>r\<close>: a column left
  out takes its default, a null primary key takes the next row id.\<close>

definition new_cell :: "table \<Rightarrow> row \<Rightarrow> string \<Rightarrow> val \<Rightarrow> val" where
  "new_cell T r c dflt =
     (let v = (case map_of r c of None \<Rightarrow> dflt | Some w \<Rightarrow> w)
      in if pk T = Some c \<and> v = Null then IntV (next_rowid T) else v)"

definition new_row :: "table \<Rightarrow> row \<Rightarrow> row" where
  "new_row T r = map (\<lambda>(c, dflt). (c, new_cell T r c dflt)) (cols T)"

definition sql_insert :: "string \<Rightarrow> row \<Rightarrow> db \<Rightarrow> error + db" where
  "sql_insert t r d =
     (case tabs d t of
        None \<Rightarrow> Inl (NoSuchTable t)
      | Some T \<Rightarrow>
          (case filter (\<lambda>c. c \<notin> set (col_names T)) (map fst r) of
             c # _ \<Rightarrow> Inl (NoSuchColumn t c)
           | [] \<Rightarrow> Inr (put_table t (T\<lparr>rows := rows T @ [new_row T r]\<rparr>) d)))"

text \<open>\<^verbatim>\<open>SELECT sel FROM t WHERE c = v\<close> followed by \<^verbatim>\<open>fetchone()\<close>: the selected value of
  the first matching row, if there is one.\<close>

definition sql_select_first :: "string \<Rightarrow> string \<Rightarrow> string \<Rightarrow> val \<Rightarrow> db \<Rightarrow> error + val option" where
  "sql_select_first t sel c v d =
     (case tabs d t of
        None \<Rightarrow> Inl (NoSuchTable t)
      | Some T \<Rightarrow>
          if sel \<notin> set (col_names T) then Inl (NoSuchColumn t sel)
          else if c \<notin> set (col_names T) then Inl (NoSuchColumn t c)
          else (case filter (\<lambda>r. getv r c = v) (rows T) of
                  [] \<Rightarrow> Inr None
                | r # _ \<Rightarrow> Inr (Some (getv r sel))))"

text \<open>\<^verbatim>\<open>UPDATE t SET ... WHERE c = v\<close>: \<open>used\<close> are the columns the statement names,
  \<open>f\<close> the new row.\<close>

definition sql_update_where ::
  "string \<Rightarrow> string list \<Rightarrow> string \<Rightarrow> val \<Rightarrow> (row \<Rightarrow> row) \<Rightarrow> db \<Rightarrow> error + db" where
  "sql_update_where t used c v f d =
     (case tabs d t of
        None \<Rightarrow> Inl (NoSuchTable t)
      | Some T \<Rightarrow>
          (case filter (\<lambda>u. u \<notin> set (col_names T)) used of
             u # _ \<Rightarrow> Inl (NoSuchColumn t u)
           | [] \<Rightarrow> Inr (put_table t
                     (T\<lparr>rows := map (\<lambda>r. if getv r c = v then f r else r) (rows T)\<rparr>) d)))"

section \<open>Helpers shared by both database scripts\<close>

text \<open>\<^verbatim>\<open>table_exists\<close>, \<^verbatim>\<open>get_table_columns\<close> and \<^verbatim>\<open>column_exists\<close> read the same in both
  scripts; \<^verbatim>\<open>PRAGMA table_info\<close> of a missing table is empty.\<close>

definition table_exists :: "db \<Rightarrow> string \<Rightarrow> bool" where
  "table_exists d t = (tabs d t \<noteq> None)"

definition get_table_columns :: "db \<Rightarrow> string \<Rightarrow> string list" where
  "get_table_columns d t = (case tabs d t of None \<Rightarrow> [] | Some T \<Rightarrow> col_names T)"

definition column_exists :: "db \<Rightarrow> string \<Rightarrow> string \<Rightarrow> bool" where
  "column_exists d t c = (c \<in> set (get_table_columns d t))"

section \<open>\<^verbatim>\<open>correcao_pos_migracao.py\<close>\<close>

text \<open>
  The connection of the script. Python's \<^verbatim>\<open>sqlite3\<close> (Python 3.6 and later, default
  isolation level) opens a transaction implicitly before an INSERT, UPDATE, DELETE or
  REPLACE and before nothing else: an \<^verbatim>\<open>ALTER TABLE\<close> run while no transaction is open is
  committed at once, and one run inside an open transaction belongs to it.
  \<open>snap\<close> is the database as it was when the open transaction began (\<open>None\<close>: no
  transaction is open), \<open>out\<close> the report lines printed so far.
\<close>

datatype action =
    DatabaseNotFound
  | CurrentColumns string "string list"
  | ColumnAdded string string
  | AddFailed string string error
  | ColumnAlreadyPresent string string
  | TableMissing string
  | RowsBackfilled string string nat
  | RunFailed error

record session =
  cur :: db
  snap :: "db option"
  out :: "action list"

definition report :: "action \<Rightarrow> session \<Rightarrow> session" where
  "report a s = s\<lparr>out := out s @ [a]\<rparr>"

text \<open>A statement that changes the schema, and one that changes rows. A statement that
  fails is refused when it is prepared, before any transaction is opened for it.\<close>

definition exec_ddl :: "(db \<Rightarrow> error + db) \<Rightarrow> session \<Rightarrow> error option \<times> session" where
  "exec_ddl f s = (case f (cur s) of Inl e \<Rightarrow> (Some e, s) | Inr d \<Rightarrow> (None, s\<lparr>cur := d\<rparr>))"

definition exec_dml :: "(db \<Rightarrow> error + db) \<Rightarrow> session \<Rightarrow> error option \<times> session" where
  "exec_dml f s =
     (case f (cur s) of
        Inl e \<Rightarrow> (Some e, s)
      | Inr d \<Rightarrow> (None, s\<lparr>cur := d, snap := (if snap s = None then Some (cur s) else snap s)\<rparr>))"

definition commit :: "session \<Rightarrow> session" where
  "commit s = s\<lparr>snap := None\<rparr>"

definition rollback :: "session \<Rightarrow> session" where
  "rollback s = s\<lparr>cur := (case snap s of None \<Rightarrow> cur s | Some d \<Rightarrow> d), snap := None\<rparr>"

text \<open>\<^verbatim>\<open>safe_add_column\<close> of this script (lines 29-49): the \<^verbatim>\<open>try\<close> block catches every
  failure, prints it and returns \<^verbatim>\<open>False\<close>. \<open>now\<close> is what \<^verbatim>\<open>datetime('now')\<close> reads.\<close>

definition safe_add_column ::
  "(string \<Rightarrow> string \<Rightarrow> bool) \<Rightarrow> string \<Rightarrow> string \<Rightarrow> string \<Rightarrow> string \<Rightarrow> val option \<Rightarrow>
   session \<Rightarrow> bool \<times> session" where
  "safe_add_column refuse now table_name column_name column_type default_value s =
     (if \<not> column_exists (cur s) table_name column_name then
        (case exec_ddl (sql_add_column refuse table_name column_name
                          (case default_value of None \<Rightarrow> Null | Some v \<Rightarrow> v)) s of
           (Some e, s1) \<Rightarrow> (False, report (AddFailed table_name column_name e) s1)
         | (None, s1) \<Rightarrow>
             (case (if column_name = ''created_at'' \<and> default_value = None
                    then exec_dml (sql_update_null table_name column_name (TextV now)) s1
                    else (None, s1)) of
                (Some e, s2) \<Rightarrow> (False, report (AddFailed table_name column_name e) s2)
              | (None, s2) \<Rightarrow> (True, report (ColumnAdded table_name column_name) s2)))
      else (False, report (ColumnAlreadyPresent table_name column_name) s))"

text \<open>The expected structure (lines 65-120), in the dictionary's insertion order. The
  literal \<^verbatim>\<open>'0'\<close> of the REAL column \<^verbatim>\<open>limite_credito\<close> is the integer \<open>0\<close> here.\<close>

definition estruturas_esperadas :: "(string \<times> (string \<times> string \<times> val option) list) list" where
  "estruturas_esperadas =
    [(''users'',
        [(''perfil'', ''TEXT'', Some (TextV ''usuario'')),
         (''nome_completo'', ''TEXT'', None),
         (''email'', ''TEXT'', None),
         (''ativo'', ''BOOLEAN'', Some (IntV 1)),
         (''created_at'', ''TEXT'', None),
         (''updated_at'', ''TEXT'', None)]),
     (''categorias'',
        [(''descricao'', ''TEXT'', None),
         (''cor'', ''TEXT'', Some (TextV ''#667eea'')),
         (''icone'', ''TEXT'', Some (TextV ''fas fa-tag'')),
         (''ativo'', ''BOOLEAN'', Some (IntV 1)),
         (''created_at'', ''TEXT'', None)]),
     (''despesas'',
        [(''cartao_id'', ''INTEGER'', None),
         (''grupo_id'', ''INTEGER'', None),
         (''despesa_fixa_id'', ''INTEGER'', None),
         (''parcela_atual'', ''INTEGER'', Some (IntV 1)),
         (''total_parcelas'', ''INTEGER'', Some (IntV 1)),
         (''grupo_parcela'', ''TEXT'', None),
         (''tipo'', ''TEXT'', Some (TextV ''individual'')),
         (''observacoes'', ''TEXT'', None),
         (''user_id'', ''INTEGER'', None),
         (''created_at'', ''TEXT'', None)]),
     (''despesas_fixas'',
        [(''observacoes'', ''TEXT'', None),
         (''user_id'', ''INTEGER'', None),
         (''grupo_id'', ''INTEGER'', None),
         (''ativo'', ''BOOLEAN'', Some (IntV 1)),
         (''created_at'', ''TEXT'', None)]),
     (''grupos'',
        [(''descricao'', ''TEXT'', None),
         (''tipo'', ''TEXT'', Some (TextV ''familia'')),
         (''criado_por'', ''INTEGER'', None),
         (''ativo'', ''BOOLEAN'', Some (IntV 1)),
         (''created_at'', ''TEXT'', None)]),
     (''grupo_membros'',
        [(''papel'', ''TEXT'', Some (TextV ''membro'')),
         (''adicionado_por'', ''INTEGER'', None),
         (''created_at'', ''TEXT'', None)]),
     (''cartoes'',
        [(''descricao'', ''TEXT'', None),
         (''limite_credito'', ''REAL'', Some (IntV 0)),
         (''bandeira'', ''TEXT'', None),
         (''user_id'', ''INTEGER'', None),
         (''ativo'', ''BOOLEAN'', Some (IntV 1)),
         (''created_at'', ''TEXT'', None)])]"

text \<open>The inner loop (lines 132-133) and the loop over the tables (lines 123-135). The
  result of \<^verbatim>\<open>safe_add_column\<close> is not looked at.\<close>

fun adicionar_colunas ::
  "(string \<Rightarrow> string \<Rightarrow> bool) \<Rightarrow> string \<Rightarrow> string \<Rightarrow> (string \<times> string \<times> val option) list \<Rightarrow>
   session \<Rightarrow> session" where
  "adicionar_colunas refuse now t [] s = s"
| "adicionar_colunas refuse now t ((c, ty, dv) # rest) s =
     adicionar_colunas refuse now t rest (snd (safe_add_column refuse now t c ty dv s))"

fun verificar_tabelas ::
  "(string \<Rightarrow> string \<Rightarrow> bool) \<Rightarrow> string \<Rightarrow> (string \<times> (string \<times> string \<times> val option) list) list \<Rightarrow>
   session \<Rightarrow> session" where
  "verificar_tabelas refuse now [] s = s"
| "verificar_tabelas refuse now ((t, expected) # rest) s =
     verificar_tabelas refuse now rest
       (if table_exists (cur s) t
        then adicionar_colunas refuse now t expected
               (report (CurrentColumns t (get_table_columns (cur s) t)) s)
        else report (TableMissing t) s)"

text \<open>One null check of the consistency pass: count the nulls and, if there are any, set
  them and print how many (lines 141-144 and their siblings). A failing statement raises
  out of the pass.\<close>

definition corrigir_nulos :: "string \<Rightarrow> string \<Rightarrow> val \<Rightarrow> session \<Rightarrow> error option \<times> session" where
  "corrigir_nulos t c v s =
     (case sql_count_null t c (cur s) of
        Inl e \<Rightarrow> (Some e, s)
      | Inr n \<Rightarrow>
          if n > 0 then
            (case exec_dml (sql_update_null t c v) s of
               (Some e, s1) \<Rightarrow> (Some e, s1)
             | (None, s1) \<Rightarrow> (None, report (RowsBackfilled t c n) s1))
          else (None, s))"

definition then_do ::
  "error option \<times> session \<Rightarrow> (session \<Rightarrow> error option \<times> session) \<Rightarrow> error option \<times> session" where
  "then_do r f = (case r of (Some e, s) \<Rightarrow> (Some e, s) | (None, s) \<Rightarrow> f s)"

definition tabelas_com_created_at :: "string list" where
  "tabelas_com_created_at =
     [''users'', ''categorias'', ''despesas'', ''despesas_fixas'', ''grupos'', ''grupo_membros'',
      ''cartoes'']"

fun corrigir_created_at :: "string \<Rightarrow> string list \<Rightarrow> session \<Rightarrow> error option \<times> session" where
  "corrigir_created_at now [] s = (None, s)"
| "corrigir_created_at now (tabela # rest) s =
     (if table_exists (cur s) tabela \<and> column_exists (cur s) tabela ''created_at''
      then then_do (corrigir_nulos tabela ''created_at'' (TextV now) s) (corrigir_created_at now rest)
      else corrigir_created_at now rest s)"

text \<open>The consistency pass (lines 137-173). The query on \<^verbatim>\<open>users\<close> is not guarded by
  \<^verbatim>\<open>table_exists\<close>; those on \<^verbatim>\<open>categorias\<close> and \<^verbatim>\<open>despesas_fixas\<close> are.\<close>

definition verificar_dados :: "string \<Rightarrow> session \<Rightarrow> error option \<times> session" where
  "verificar_dados now s =
     then_do (corrigir_nulos ''users'' ''ativo'' (IntV 1) s) (\<lambda>s1.
     then_do (if table_exists (cur s1) ''categorias''
              then then_do (corrigir_nulos ''categorias'' ''ativo'' (IntV 1) s1)
                     (corrigir_nulos ''categorias'' ''cor'' (TextV ''#667eea''))
              else (None, s1)) (\<lambda>s2.
     then_do (if table_exists (cur s2) ''despesas_fixas''
              then corrigir_nulos ''despesas_fixas'' ''ativo'' (IntV 1) s2
              else (None, s2))
       (corrigir_created_at now tabelas_com_created_at)))"

text \<open>\<^verbatim>\<open>verificar_e_corrigir_estrutura\<close> (lines 51-194). The database file is \<open>None\<close> when
  it does not exist. The result is what the function returns, the database file as the
  run leaves it, and the report.\<close>

definition verificar_e_corrigir_estrutura ::
  "(string \<Rightarrow> string \<Rightarrow> bool) \<Rightarrow> string \<Rightarrow> db option \<Rightarrow> bool \<times> db option \<times> action list" where
  "verificar_e_corrigir_estrutura refuse now file =
     (case file of
        None \<Rightarrow> (False, None, [DatabaseNotFound])
      | Some d \<Rightarrow>
          (case verificar_dados now
                  (verificar_tabelas refuse now estruturas_esperadas
                     \<lparr>cur = d, snap = None, out = []\<rparr>) of
             (None, s) \<Rightarrow> (True, Some (cur (commit s)), out s)
           | (Some e, s) \<Rightarrow> (False, Some (cur (rollback s)), out s @ [RunFailed e])))"

section \<open>\<^verbatim>\<open>migrate_melhorias_corrigido_v3.py\<close>\<close>

text \<open>
  The migration runs inside one explicit transaction (\<^verbatim>\<open>BEGIN TRANSACTION\<close> ...
  \<^verbatim>\<open>COMMIT\<close>, \<^verbatim>\<open>ROLLBACK\<close> in the handler), so the model passes the database
  along and, where the code raises, keeps the error and the database as it was at that
  moment. The two \<^verbatim>\<open>PRAGMA foreign_keys\<close> statements do nothing inside a transaction and
  are left out, as are the progress lines the script prints.
\<close>

datatype 'a outcome = Done 'a db | Raised error db

definition and_then :: "'a outcome \<Rightarrow> ('a \<Rightarrow> db \<Rightarrow> 'b outcome) \<Rightarrow> 'b outcome" where
  "and_then r f = (case r of Done x d \<Rightarrow> f x d | Raised e d \<Rightarrow> Raised e d)"

definition run_sql :: "(db \<Rightarrow> error + db) \<Rightarrow> db \<Rightarrow> unit outcome" where
  "run_sql f d = (case f d of Inl e \<Rightarrow> Raised e d | Inr d1 \<Rightarrow> Done () d1)"

text \<open>\<^verbatim>\<open>cleanup_temp_tables\<close> (lines 35-42).\<close>

fun drop_temp_tables :: "string list \<Rightarrow> db \<Rightarrow> unit outcome" where
  "drop_temp_tables [] d = Done () d"
| "drop_temp_tables (t # rest) d =
     (if table_exists d t
      then and_then (run_sql (sql_drop_table t) d) (\<lambda>_. drop_temp_tables rest)
      else drop_temp_tables rest d)"

definition cleanup_temp_tables :: "db \<Rightarrow> unit outcome" where
  "cleanup_temp_tables d = drop_temp_tables [''users_new'', ''despesas_new'', ''categorias_new''] d"

text \<open>The structure both \<^verbatim>\<open>CREATE TABLE users\<close> and \<^verbatim>\<open>CREATE TABLE users_new\<close> declare.\<close>

definition users_columns :: "(string \<times> val) list" where
  "users_columns =
     [(''id'', Null), (''username'', Null), (''password_hash'', Null),
      (''perfil'', TextV ''usuario''), (''nome_completo'', Null), (''email'', Null),
      (''ativo'', IntV 1), (''created_at'', Null), (''updated_at'', Null)]"

text \<open>The row the \<^verbatim>\<open>SELECT\<close> of lines 106-126 makes of a row of \<^verbatim>\<open>users\<close>.\<close>

definition copy_row :: "string \<Rightarrow> row \<Rightarrow> row" where
  "copy_row now r =
     [(''id'', getv r ''id''),
      (''username'', getv r ''username''),
      (''password_hash'', getv r ''password_hash''),
      (''perfil'', (case getv r ''perfil'' of Null \<Rightarrow> TextV ''usuario'' | v \<Rightarrow> v)),
      (''nome_completo'',
         (if getv r ''username'' = TextV ''master'' then TextV ''Administrador Master''
          else if getv r ''username'' = TextV ''daniela'' then TextV ''Daniela Silva''
          else if getv r ''username'' = TextV ''paulo'' then TextV ''Paulo Santos''
          else getv r ''username'')),
      (''email'',
         (if getv r ''username'' = TextV ''master'' then TextV ''admin@portal.com''
          else if getv r ''username'' = TextV ''daniela'' then TextV ''daniela@email.com''
          else if getv r ''username'' = TextV ''paulo'' then TextV ''paulo@email.com''
          else Null)),
      (''ativo'', IntV 1),
      (''created_at'', TextV now),
      (''updated_at'', TextV now)]"

fun insert_all :: "string \<Rightarrow> row list \<Rightarrow> db \<Rightarrow> error + db" where
  "insert_all t [] d = Inr d"
| "insert_all t (r # rest) d =
     (case sql_insert t r d of Inl e \<Rightarrow> Inl e | Inr d1 \<Rightarrow> insert_all t rest d1)"

text \<open>\<^verbatim>\<open>INSERT INTO users_new (...) SELECT ... FROM users\<close> (lines 104-127), one statement.\<close>

definition copy_users :: "string \<Rightarrow> db \<Rightarrow> error + db" where
  "copy_users now d =
     (if tabs d ''users_new'' = None then Inl (NoSuchTable ''users_new'')
      else
        (case tabs d ''users'' of
           None \<Rightarrow> Inl (NoSuchTable ''users'')
         | Some U \<Rightarrow>
             (case filter (\<lambda>c. c \<notin> set (col_names U))
                     [''id'', ''username'', ''password_hash'', ''perfil''] of
                c # _ \<Rightarrow> Inl (NoSuchColumn ''users'' c)
              | [] \<Rightarrow> insert_all ''users_new'' (map (copy_row now) (rows U)) d)))"

text \<open>Lines 129-138: compare the row counts, raise when they differ, else drop the old
  table and rename the new one.\<close>

definition verify_and_swap :: "db \<Rightarrow> unit outcome" where
  "verify_and_swap d =
     (case sql_count ''users'' d of
        Inl e \<Rightarrow> Raised e d
      | Inr old_count \<Rightarrow>
          (case sql_count ''users_new'' d of
             Inl e \<Rightarrow> Raised e d
           | Inr new_count \<Rightarrow>
               if old_count \<noteq> new_count then Raised (DataLoss old_count new_count) d
               else and_then (run_sql (sql_drop_table ''users'') d)
                      (\<lambda>_. run_sql (sql_rename_table ''users_new'' ''users''))))"

definition needs_migration :: "db \<Rightarrow> bool" where
  "needs_migration d =
     list_ex (\<lambda>column. \<not> column_exists d ''users'' column)
       [''nome_completo'', ''email'', ''ativo'', ''created_at'', ''updated_at'']"

text \<open>\<^verbatim>\<open>migrate_users_table\<close> (lines 44-145).\<close>

definition migrate_users_table :: "string \<Rightarrow> db \<Rightarrow> unit outcome" where
  "migrate_users_table now d =
     and_then (cleanup_temp_tables d) (\<lambda>_ d1.
       if \<not> table_exists d1 ''users''
       then run_sql (sql_create_table ''users'' users_columns (Some ''id'')) d1
       else if needs_migration d1 then
         and_then (if table_exists d1 ''users_new''
                   then run_sql (sql_drop_table ''users_new'') d1 else Done () d1) (\<lambda>_ d2.
         and_then (run_sql (sql_create_table ''users_new'' users_columns (Some ''id'')) d2) (\<lambda>_ d3.
         and_then (run_sql (copy_users now) d3) (\<lambda>_. verify_and_swap)))
       else Done () d1)"

text \<open>\<^verbatim>\<open>safe_add_column\<close> of this script (lines 147-161): no \<^verbatim>\<open>try\<close>, a failing statement
  raises to the caller.\<close>

definition safe_add_column_v3 ::
  "(string \<Rightarrow> string \<Rightarrow> bool) \<Rightarrow> string \<Rightarrow> string \<Rightarrow> string \<Rightarrow> string \<Rightarrow> val option \<Rightarrow>
   db \<Rightarrow> bool outcome" where
  "safe_add_column_v3 refuse now table_name column_name column_type default_value d =
     (if \<not> column_exists d table_name column_name then
        and_then (run_sql (sql_add_column refuse table_name column_name
                             (case default_value of None \<Rightarrow> Null | Some v \<Rightarrow> v)) d) (\<lambda>_ d1.
        and_then (if column_name = ''created_at'' \<and> default_value = None
                  then run_sql (sql_update_null table_name column_name (TextV now)) d1
                  else Done () d1) (\<lambda>_ d2. Done True d2))
      else Done False d)"

fun add_columns_v3 ::
  "(string \<Rightarrow> string \<Rightarrow> bool) \<Rightarrow> string \<Rightarrow> string \<Rightarrow> (string \<times> string \<times> val option) list \<Rightarrow>
   db \<Rightarrow> unit outcome" where
  "add_columns_v3 refuse now t [] d = Done () d"
| "add_columns_v3 refuse now t ((c, ty, dv) # rest) d =
     and_then (safe_add_column_v3 refuse now t c ty dv d) (\<lambda>_. add_columns_v3 refuse now t rest)"

definition create_if_missing ::
  "string \<Rightarrow> (string \<times> val) list \<Rightarrow> db \<Rightarrow> unit outcome" where
  "create_if_missing t cs d =
     (if \<not> table_exists d t then run_sql (sql_create_table t cs (Some ''id'')) d else Done () d)"

definition categorias_columns :: "(string \<times> val) list" where
  "categorias_columns =
     [(''id'', Null), (''nome'', Null), (''descricao'', Null), (''cor'', TextV ''#667eea''),
      (''icone'', TextV ''fas fa-tag''), (''ativo'', IntV 1), (''created_at'', Null)]"

text \<open>\<^verbatim>\<open>migrate_categorias_table\<close> (lines 163-193).\<close>

definition migrate_categorias_table ::
  "(string \<Rightarrow> string \<Rightarrow> bool) \<Rightarrow> string \<Rightarrow> db \<Rightarrow> unit outcome" where
  "migrate_categorias_table refuse now d =
     (if \<not> table_exists d ''categorias''
      then run_sql (sql_create_table ''categorias'' categorias_columns (Some ''id'')) d
      else add_columns_v3 refuse now ''categorias''
             [(''descricao'', ''TEXT'', None),
              (''cor'', ''TEXT'', Some (TextV ''#667eea'')),
              (''icone'', ''TEXT'', Some (TextV ''fas fa-tag'')),
              (''ativo'', ''BOOLEAN'', Some (IntV 1)),
              (''created_at'', ''TEXT'', None)] d)"

text \<open>\<^verbatim>\<open>insert_categoria_safe\<close> (lines 195-238). \<open>isonow\<close> is what
  \<^verbatim>\<open>datetime.now().isoformat()\<close> reads. A row found is a non-empty tuple, which Python
  takes for true whatever its id.\<close>

definition insert_categoria_safe ::
  "string \<Rightarrow> string \<Rightarrow> string \<Rightarrow> string \<Rightarrow> string \<Rightarrow> db \<Rightarrow> unit outcome" where
  "insert_categoria_safe isonow nome descricao cor icone d =
     (case sql_select_first ''categorias'' ''id'' ''nome'' (TextV nome) d of
        Inl e \<Rightarrow> Raised e d
      | Inr (Some existe) \<Rightarrow> Done () d
      | Inr None \<Rightarrow>
          (let columns = get_table_columns d ''categorias'' in
           run_sql (sql_insert ''categorias''
             ([(''nome'', TextV nome)]
              @ (if ''descricao'' \<in> set columns then [(''descricao'', TextV descricao)] else [])
              @ (if ''cor'' \<in> set columns then [(''cor'', TextV cor)] else [])
              @ (if ''icone'' \<in> set columns then [(''icone'', TextV icone)] else [])
              @ (if ''ativo'' \<in> set columns then [(''ativo'', IntV 1)] else [])
              @ (if ''created_at'' \<in> set columns then [(''created_at'', TextV isonow)] else []))) d))"

definition categorias_padrao :: "(string \<times> string \<times> string \<times> string) list" where
  "categorias_padrao =
    [
     ((''Alimenta'' @ [CHR 0xC3, CHR 0xA7, CHR 0xC3, CHR 0xA3] @ ''o''),
      ''Gastos com comida e bebidas'',
      ''#28a745'',
      ''fas fa-utensils''),
     (''Transporte'',
      (''Combust'' @ [CHR 0xC3, CHR 0xAD] @ ''vel, transporte p'' @ [CHR 0xC3, CHR 0xBA] @ ''blico, etc.''),
      ''#007bff'',
      ''fas fa-car''),
     (''Moradia'',
      (''Aluguel, condom'' @ [CHR 0xC3, CHR 0xAD] @ ''nio, IPTU, etc.''),
      ''#6f42c1'',
      ''fas fa-home''),
     ((''Sa'' @ [CHR 0xC3, CHR 0xBA] @ ''de''),
      (''M'' @ [CHR 0xC3, CHR 0xA9] @ ''dicos, medicamentos, planos''),
      ''#dc3545'',
      ''fas fa-heartbeat''),
     ((''Educa'' @ [CHR 0xC3, CHR 0xA7, CHR 0xC3, CHR 0xA3] @ ''o''),
      ''Cursos, livros, material escolar'',
      ''#fd7e14'',
      ''fas fa-graduation-cap''),
     (''Lazer'',
      ''Cinema, restaurantes, viagens'',
      ''#e83e8c'',
      ''fas fa-gamepad''),
     ((''Vestu'' @ [CHR 0xC3, CHR 0xA1] @ ''rio''),
      (''Roupas, cal'' @ [CHR 0xC3, CHR 0xA7] @ ''ados, acess'' @ [CHR 0xC3, CHR 0xB3] @ ''rios''),
      ''#20c997'',
      ''fas fa-tshirt''),
     (''Tecnologia'',
      (''Eletr'' @ [CHR 0xC3, CHR 0xB4] @ ''nicos, internet, telefone''),
      ''#6c757d'',
      ''fas fa-laptop''),
     (''Casa em Ordem'',
      ''Despesas familiares compartilhadas'',
      ''#667eea'',
      ''fas fa-users''),
     ((''Cart'' @ [CHR 0xC3, CHR 0xA3] @ ''o de Cr'' @ [CHR 0xC3, CHR 0xA9] @ ''dito''),
      (''Despesas no cart'' @ [CHR 0xC3, CHR 0xA3] @ ''o de cr'' @ [CHR 0xC3, CHR 0xA9] @ ''dito''),
      ''#ffc107'',
      ''fas fa-credit-card'')]"

fun inserir_categorias ::
  "string \<Rightarrow> (string \<times> string \<times> string \<times> string) list \<Rightarrow> db \<Rightarrow> unit outcome" where
  "inserir_categorias isonow [] d = Done () d"
| "inserir_categorias isonow ((nome, desc, cor, icone) # rest) d =
     and_then (insert_categoria_safe isonow nome desc cor icone d) (\<lambda>_. inserir_categorias isonow rest)"

text \<open>The default users (lines 400-424). \<open>hash\<close> is \<^verbatim>\<open>hash_password\<close>, SHA-256 in
  hexadecimal, taken as a parameter.\<close>

definition usuarios_padrao ::
  "(string \<Rightarrow> string) \<Rightarrow> (string \<times> string \<times> string \<times> string \<times> string) list" where
  "usuarios_padrao hash =
     [(''master'', hash ''Admin@Mhd051121'', ''Master'', ''Administrador Master'', ''admin@portal.com''),
      (''daniela'', hash ''senha123'', ''usuario'', ''Daniela Silva'', ''daniela@email.com''),
      (''paulo'', hash ''senha123'', ''usuario'', ''Paulo Santos'', ''paulo@email.com'')]"

definition coalesce :: "val \<Rightarrow> val \<Rightarrow> val" where
  "coalesce a b = (case a of Null \<Rightarrow> b | v \<Rightarrow> v)"

definition inserir_usuario ::
  "string \<Rightarrow> string \<Rightarrow> string \<Rightarrow> string \<Rightarrow> string \<Rightarrow> string \<Rightarrow> db \<Rightarrow> unit outcome" where
  "inserir_usuario now username password_hash perfil nome email d =
     (case sql_select_first ''users'' ''id'' ''username'' (TextV username) d of
        Inl e \<Rightarrow> Raised e d
      | Inr None \<Rightarrow>
          run_sql (sql_insert ''users''
            [(''username'', TextV username), (''password_hash'', TextV password_hash),
             (''perfil'', TextV perfil), (''nome_completo'', TextV nome), (''email'', TextV email),
             (''ativo'', IntV 1), (''created_at'', TextV now), (''updated_at'', TextV now)]) d
      | Inr (Some existe) \<Rightarrow>
          run_sql (sql_update_where ''users''
            [''password_hash'', ''perfil'', ''nome_completo'', ''email'', ''updated_at'', ''username'']
            ''username'' (TextV username)
            (\<lambda>r. AList.update ''updated_at'' (TextV now)
                   (AList.update ''email'' (coalesce (getv r ''email'') (TextV email))
                   (AList.update ''nome_completo'' (coalesce (getv r ''nome_completo'') (TextV nome))
                   (AList.update ''perfil'' (TextV perfil)
                   (AList.update ''password_hash'' (TextV password_hash) r)))))) d)"

fun inserir_usuarios ::
  "string \<Rightarrow> (string \<times> string \<times> string \<times> string \<times> string) list \<Rightarrow> db \<Rightarrow> unit outcome" where
  "inserir_usuarios now [] d = Done () d"
| "inserir_usuarios now ((username, password_hash, perfil, nome, email) # rest) d =
     and_then (inserir_usuario now username password_hash perfil nome email d)
       (\<lambda>_. inserir_usuarios now rest)"

text \<open>The default group and its members (lines 443-464).\<close>

definition familia :: string where
  "familia = (''Fam'' @ [CHR 0xC3, CHR 0xAD] @ ''lia'')"

fun inserir_membros :: "string \<Rightarrow> val \<Rightarrow> val \<Rightarrow> val list \<Rightarrow> db \<Rightarrow> unit outcome" where
  "inserir_membros now grupo_id master_id [] d = Done () d"
| "inserir_membros now grupo_id master_id (user_id # rest) d =
     and_then (run_sql (sql_insert ''grupo_membros''
                 [(''grupo_id'', grupo_id), (''user_id'', user_id), (''papel'', TextV ''membro''),
                  (''adicionado_por'', master_id), (''created_at'', TextV now)]) d)
       (\<lambda>_. inserir_membros now grupo_id master_id rest)"

definition inserir_grupo_padrao :: "string \<Rightarrow> db \<Rightarrow> unit outcome" where
  "inserir_grupo_padrao now d =
     (case sql_select_first ''grupos'' ''id'' ''nome'' (TextV familia) d of
        Inl e \<Rightarrow> Raised e d
      | Inr (Some existe_grupo) \<Rightarrow> Done () d
      | Inr None \<Rightarrow>
          (case sql_select_first ''users'' ''id'' ''username'' (TextV ''master'') d of
             Inl e \<Rightarrow> Raised e d
           | Inr None \<Rightarrow> Done () d
           | Inr (Some master_id) \<Rightarrow>
               (let grupo_id = (case tabs d ''grupos'' of
                                  None \<Rightarrow> Null | Some G \<Rightarrow> IntV (next_rowid G)) in
                and_then (run_sql (sql_insert ''grupos''
                            [(''nome'', TextV familia),
                             (''descricao'', TextV ''Grupo familiar para despesas compartilhadas''),
                             (''tipo'', TextV ''familia''), (''criado_por'', master_id),
                             (''ativo'', IntV 1), (''created_at'', TextV now)]) d) (\<lambda>_ d1.
                  inserir_membros now grupo_id master_id
                    (case tabs d1 ''users'' of
                       None \<Rightarrow> [] | Some U \<Rightarrow> map (\<lambda>r. getv r ''id'') (rows U)) d1))))"

text \<open>The indexes (lines 471-483).\<close>

definition indices :: "(string \<times> string \<times> string) list" where
  "indices =
     [(''idx_despesas_data'', ''despesas'', ''data''),
      (''idx_despesas_user'', ''despesas'', ''user_id''),
      (''idx_despesas_grupo'', ''despesas'', ''grupo_id''),
      (''idx_despesas_cartao'', ''despesas'', ''cartao_id''),
      (''idx_grupo_membros_grupo'', ''grupo_membros'', ''grupo_id''),
      (''idx_grupo_membros_user'', ''grupo_membros'', ''user_id''),
      (''idx_cartoes_user'', ''cartoes'', ''user_id''),
      (''idx_despesas_fixas_user'', ''despesas_fixas'', ''user_id'')]"

fun criar_indices :: "(string \<times> string \<times> string) list \<Rightarrow> db \<Rightarrow> unit outcome" where
  "criar_indices [] d = Done () d"
| "criar_indices ((n, t, c) # rest) d =
     and_then (run_sql (sql_create_index n t c) d) (\<lambda>_. criar_indices rest)"

text \<open>The tables the migration creates when they are missing (steps 2, 3, 5 and 6).\<close>

definition grupos_columns :: "(string \<times> val) list" where
  "grupos_columns =
     [(''id'', Null), (''nome'', Null), (''descricao'', Null), (''tipo'', TextV ''familia''),
      (''criado_por'', Null), (''ativo'', IntV 1), (''created_at'', Null)]"

definition grupo_membros_columns :: "(string \<times> val) list" where
  "grupo_membros_columns =
     [(''id'', Null), (''grupo_id'', Null), (''user_id'', Null), (''papel'', TextV ''membro''),
      (''adicionado_por'', Null), (''created_at'', Null)]"

definition cartoes_columns :: "(string \<times> val) list" where
  "cartoes_columns =
     [(''id'', Null), (''nome'', Null), (''descricao'', Null), (''dia_vencimento'', Null),
      (''dia_fechamento'', Null), (''limite_credito'', IntV 0), (''bandeira'', Null),
      (''user_id'', Null), (''ativo'', IntV 1), (''created_at'', Null)]"

definition despesas_fixas_columns :: "(string \<times> val) list" where
  "despesas_fixas_columns =
     [(''id'', Null), (''descricao'', Null), (''valor'', Null), (''dia_vencimento'', Null),
      (''categoria_id'', Null), (''pagador'', Null), (''forma_pagamento'', Null),
      (''observacoes'', Null), (''user_id'', Null), (''grupo_id'', Null), (''ativo'', IntV 1),
      (''created_at'', Null)]"

definition despesas_columns :: "(string \<times> val) list" where
  "despesas_columns =
     [(''id'', Null), (''descricao'', Null), (''valor'', Null), (''data'', Null),
      (''pagador'', Null), (''forma_pagamento'', Null), (''categoria_id'', Null),
      (''cartao_id'', Null), (''grupo_id'', Null), (''despesa_fixa_id'', Null),
      (''parcela_atual'', IntV 1), (''total_parcelas'', IntV 1), (''grupo_parcela'', Null),
      (''tipo'', TextV ''individual''), (''observacoes'', Null), (''user_id'', Null),
      (''created_at'', Null)]"

definition migrate_despesas ::
  "(string \<Rightarrow> string \<Rightarrow> bool) \<Rightarrow> string \<Rightarrow> db \<Rightarrow> unit outcome" where
  "migrate_despesas refuse now d =
     (if \<not> table_exists d ''despesas''
      then run_sql (sql_create_table ''despesas'' despesas_columns (Some ''id'')) d
      else add_columns_v3 refuse now ''despesas''
             [(''cartao_id'', ''INTEGER'', None),
              (''grupo_id'', ''INTEGER'', None),
              (''despesa_fixa_id'', ''INTEGER'', None),
              (''observacoes'', ''TEXT'', None),
              (''created_at'', ''TEXT'', None)] d)"

text \<open>The body of the \<^verbatim>\<open>try\<close> block of \<^verbatim>\<open>migrate_database\<close>, steps 1 to 8
  (lines 254-491).\<close>

definition migrate_steps ::
  "(string \<Rightarrow> string) \<Rightarrow> (string \<Rightarrow> string \<Rightarrow> bool) \<Rightarrow> string \<Rightarrow> string \<Rightarrow> db \<Rightarrow> unit outcome" where
  "migrate_steps hash refuse now isonow d =
     and_then (migrate_users_table now d) (\<lambda>_ d1.
     and_then (create_if_missing ''grupos'' grupos_columns d1) (\<lambda>_ d2.
     and_then (create_if_missing ''grupo_membros'' grupo_membros_columns d2) (\<lambda>_ d3.
     and_then (create_if_missing ''cartoes'' cartoes_columns d3) (\<lambda>_ d4.
     and_then (migrate_categorias_table refuse now d4) (\<lambda>_ d5.
     and_then (create_if_missing ''despesas_fixas'' despesas_fixas_columns d5) (\<lambda>_ d6.
     and_then (migrate_despesas refuse now d6) (\<lambda>_ d7.
     and_then (inserir_usuarios now (usuarios_padrao hash) d7) (\<lambda>_ d8.
     and_then (inserir_categorias isonow categorias_padrao d8) (\<lambda>_ d9.
     and_then (inserir_grupo_padrao now d9) (\<lambda>_. criar_indices indices))))))))))"

text \<open>\<^verbatim>\<open>migrate_database\<close> (lines 240-525): on success the transaction is committed; on
  any exception it is rolled back, the temporary tables that the database had before the
  run are dropped, and the function returns \<^verbatim>\<open>False\<close>. A database file that does not
  exist is created empty by \<^verbatim>\<open>sqlite3.connect\<close>.\<close>

definition migrate_database ::
  "(string \<Rightarrow> string) \<Rightarrow> (string \<Rightarrow> string \<Rightarrow> bool) \<Rightarrow> string \<Rightarrow> string \<Rightarrow> db \<Rightarrow> bool \<times> db" where
  "migrate_database hash refuse now isonow d =
     (case migrate_steps hash refuse now isonow d of
        Done _ d1 \<Rightarrow> (True, d1)
      | Raised e _ \<Rightarrow>
          (False, (case cleanup_temp_tables d of Done _ d2 \<Rightarrow> d2 | Raised _ d2 \<Rightarrow> d2)))"

section \<open>\<^verbatim>\<open>correcao_sql_v2.py\<close>\<close>

text \<open>
  Python's \<^verbatim>\<open>sub in s\<close>, \<^verbatim>\<open>s.replace(old, new)\<close> and \<^verbatim>\<open>s.count(sub)\<close>: occurrences are
  taken from left to right and do not overlap. A string is its UTF-8 bytes here; the
  patterns are ASCII, so their occurrences are the same as over code points.
\<close>

fun contains :: "string \<Rightarrow> string \<Rightarrow> bool" where
  "contains p [] = (p = [])"
| "contains p (c # cs) = (prefix p (c # cs) \<or> contains p cs)"

function str_replace :: "string \<Rightarrow> string \<Rightarrow> string \<Rightarrow> string" where
  "str_replace old new [] = (if old = [] then new else [])"
| "str_replace old new (c # cs) =
     (if old = [] then new @ c # str_replace old new cs
      else if prefix old (c # cs) then new @ str_replace old new (drop (length old) (c # cs))
      else c # str_replace old new cs)"
  by pat_completeness auto
termination
  by (relation "measure (\<lambda>(old, new, s). length s)") auto

function str_count :: "string \<Rightarrow> string \<Rightarrow> nat" where
  "str_count sub [] = (if sub = [] then 1 else 0)"
| "str_count sub (c # cs) =
     (if sub = [] then Suc (str_count sub cs)
      else if prefix sub (c # cs) then Suc (str_count sub (drop (length sub) (c # cs)))
      else str_count sub cs)"
  by pat_completeness auto
termination
  by (relation "measure (\<lambda>(sub, s). length s)") auto

text \<open>\<^verbatim>\<open>str.strip()\<close>, over the ASCII white space.\<close>

definition is_space :: "char \<Rightarrow> bool" where
  "is_space c = (c \<in> {CHR '' '', CHR 0x09, CHR 0x0A, CHR 0x0B, CHR 0x0C, CHR 0x0D,
                        CHR 0x1C, CHR 0x1D, CHR 0x1E, CHR 0x1F})"

definition strip :: "string \<Rightarrow> string" where
  "strip s = rev (dropWhile is_space (rev (dropWhile is_space s)))"

record consulta =
  buscar :: string
  substituir :: string
  descricao :: string

definition consultas_especificas :: "consulta list" where
  "consultas_especificas =
    [\<lparr>buscar = ''WHERE grupo_id'', substituir = ''WHERE d.grupo_id'',
      descricao = ''Corrigir WHERE grupo_id para d.grupo_id''\<rparr>,
     \<lparr>buscar = ''AND grupo_id'', substituir = ''AND d.grupo_id'',
      descricao = ''Corrigir AND grupo_id para d.grupo_id''\<rparr>,
     \<lparr>buscar = ''ORDER BY grupo_id'', substituir = ''ORDER BY d.grupo_id'',
      descricao = ''Corrigir ORDER BY grupo_id para d.grupo_id''\<rparr>,
     \<lparr>buscar = ''GROUP BY grupo_id'', substituir = ''GROUP BY d.grupo_id'',
      descricao = ''Corrigir GROUP BY grupo_id para d.grupo_id''\<rparr>,
     \<lparr>buscar = ''WHERE user_id'', substituir = ''WHERE d.user_id'',
      descricao = ''Corrigir WHERE user_id para d.user_id''\<rparr>,
     \<lparr>buscar = ''AND user_id'', substituir = ''AND d.user_id'',
      descricao = ''Corrigir AND user_id para d.user_id''\<rparr>,
     \<lparr>buscar = ''ORDER BY user_id'', substituir = ''ORDER BY d.user_id'',
      descricao = ''Corrigir ORDER BY user_id para d.user_id''\<rparr>]"

text \<open>The loop of \<^verbatim>\<open>corrigir_consultas_especificas\<close> (lines 68-77); a correction is
  recorded as its description and the number of replacements.\<close>

fun aplicar_consultas ::
  "consulta list \<Rightarrow> string \<Rightarrow> (string \<times> nat) list \<Rightarrow> string \<times> (string \<times> nat) list" where
  "aplicar_consultas [] conteudo correcoes = (conteudo, correcoes)"
| "aplicar_consultas (q # qs) conteudo correcoes =
     (if contains (strip (buscar q)) conteudo
      then aplicar_consultas qs
             (str_replace (strip (buscar q)) (strip (substituir q)) conteudo)
             (correcoes @ [(descricao q, str_count (strip (buscar q)) conteudo)])
      else aplicar_consultas qs conteudo correcoes)"

text \<open>\<^verbatim>\<open>corrigir_consultas_especificas\<close> (lines 22-82): the corrected text and the
  corrections, or \<^verbatim>\<open>None\<close> and no correction when nothing was found.\<close>

definition corrigir_consultas_especificas ::
  "string \<Rightarrow> string option \<times> (string \<times> nat) list" where
  "corrigir_consultas_especificas conteudo =
     (case aplicar_consultas consultas_especificas conteudo [] of
        (conteudo_modificado, correcoes) \<Rightarrow>
          if correcoes \<noteq> [] then (Some conteudo_modificado, correcoes) else (None, []))"

text \<open>The searched patterns, as the loop uses them.\<close>

definition padroes :: "string list" where
  "padroes = [''WHERE grupo_id'', ''AND grupo_id'', ''ORDER BY grupo_id'', ''GROUP BY grupo_id'',
              ''WHERE user_id'', ''AND user_id'', ''ORDER BY user_id'']"

section \<open>The entry points of the two database scripts\<close>

text \<open>
  Both scripts end alike: they print a success or a failure message according to what
  the run returned and then wait at \<^verbatim>\<open>input(...)\<close>. Neither calls \<^verbatim>\<open>sys.exit\<close>, so the
  exit status of the process is 0 when the script reaches its last line, and 1 when
  \<^verbatim>\<open>input\<close> raises \<^verbatim>\<open>EOFError\<close> because the standard input is closed (\<open>None\<close>).
\<close>

definition pause_and_exit :: "string option \<Rightarrow> nat" where
  "pause_and_exit stdin = (case stdin of None \<Rightarrow> 1 | Some line \<Rightarrow> 0)"

text \<open>\<^verbatim>\<open>correcao_pos_migracao.py\<close>, lines 240-256: the database file after the run, what
  \<^verbatim>\<open>verificar_e_corrigir_estrutura\<close> returned (it selects the message), the report and
  the exit status. The test queries of \<^verbatim>\<open>verificar_portal_funcionando\<close> only read.\<close>

definition correcao_main ::
  "(string \<Rightarrow> string \<Rightarrow> bool) \<Rightarrow> string \<Rightarrow> db option \<Rightarrow> string option \<Rightarrow>
   db option \<times> bool \<times> action list \<times> nat" where
  "correcao_main refuse now file stdin =
     (case verificar_e_corrigir_estrutura refuse now file of
        (ok, file1, log) \<Rightarrow>
          if ok then (file1, True, log, pause_and_exit stdin)
          else (file1, False, log, pause_and_exit stdin))"

text \<open>\<^verbatim>\<open>migrate_melhorias_corrigido_v3.py\<close>, lines 527-548.\<close>

definition migrate_main ::
  "(string \<Rightarrow> string) \<Rightarrow> (string \<Rightarrow> string \<Rightarrow> bool) \<Rightarrow> string \<Rightarrow> string \<Rightarrow> db \<Rightarrow>
   string option \<Rightarrow> db \<times> bool \<times> nat" where
  "migrate_main hash refuse now isonow d stdin =
     (case migrate_database hash refuse now isonow d of
        (ok, d1) \<Rightarrow>
          if ok then (d1, True, pause_and_exit stdin)
          else (d1, False, pause_and_exit stdin))"

section \<open>Notions used in the statements and proofs\<close>

text \<open>The engine that refuses no alteration, and a stand-in for SHA-256 in the concrete
  runs (the results shown there do not depend on what the hash is).\<close>

definition no_refusal :: "string \<Rightarrow> string \<Rightarrow> bool" where
  "no_refusal t c = False"

definition sample_hash :: "string \<Rightarrow> string" where
  "sample_hash p = ''sha256:'' @ p"

text \<open>A searched pattern split after its last blank into keyword and column name, and
  what the proof about the substitution rules needs of a rule: it puts \<^verbatim>\<open>d.\<close> between
  the two, the keyword has no \<open>i\<close>, the pattern has no dot and ends in \<open>id\<close>, and the
  keyword's first letter is not in the column name.\<close>

definition split_keyword :: "string \<Rightarrow> string \<times> string" where
  "split_keyword b = (rev (dropWhile (\<lambda>c. c \<noteq> CHR '' '') (rev b)),
                      rev (takeWhile (\<lambda>c. c \<noteq> CHR '' '') (rev b)))"

definition regra_ok :: "consulta \<Rightarrow> bool" where
  "regra_ok q =
     (let b = strip (buscar q); k = fst (split_keyword b); g = snd (split_keyword b)
      in strip (substituir q) = k @ ''d.'' @ g \<and> k \<noteq> [] \<and> CHR ''i'' \<notin> set k \<and>
         CHR ''.'' \<notin> set b \<and> take 2 (rev b) = ''di'' \<and> hd k \<notin> set g)"

definition padrao_ok :: "string \<Rightarrow> bool" where
  "padrao_ok p = (CHR ''.'' \<notin> set p \<and> suffix ''id'' p)"

text \<open>The database \<open>d\<close> after its table \<open>t\<close>, which is \<open>T\<close>, got the column \<open>c\<close> with
  default \<open>dflt\<close> and the value \<open>v\<close> in every row; and the value a column added without a
  default has in the existing rows when \<^verbatim>\<open>safe_add_column\<close> returns.\<close>

definition with_column :: "string \<Rightarrow> table \<Rightarrow> string \<Rightarrow> val \<Rightarrow> val \<Rightarrow> db \<Rightarrow> db" where
  "with_column t T c dflt v d =
     put_table t (T\<lparr>cols := cols T @ [(c, dflt)], rows := map (AList.update c v) (rows T)\<rparr>) d"

definition added_value :: "string \<Rightarrow> string \<Rightarrow> val" where
  "added_value now c = (if c = ''created_at'' then TextV now else Null)"

text \<open>Concrete databases for the examples: a \<^verbatim>\<open>despesas\<close> table alone; a \<^verbatim>\<open>users\<close> table
  beside a half-filled \<^verbatim>\<open>users_new\<close>; the \<^verbatim>\<open>despesas_fixas\<close> table of the backfill scenario
  (three rows, no \<^verbatim>\<open>ativo\<close> column), alone and beside a \<^verbatim>\<open>users\<close> table; and a database
  without \<^verbatim>\<open>users\<close> whose \<^verbatim>\<open>categorias\<close> and \<^verbatim>\<open>despesas\<close> tables lack columns.\<close>

definition tiny_despesas :: table where
  "tiny_despesas =
     \<lparr>cols = [(''id'', Null), (''descricao'', Null)], pk = Some ''id'',
      rows = [[(''id'', IntV 1), (''descricao'', TextV ''luz'')]]\<rparr>"

definition tiny_db :: db where
  "tiny_db = \<lparr>tabs = [''despesas'' \<mapsto> tiny_despesas], idxs = []\<rparr>"

definition two_users :: table where
  "two_users =
     \<lparr>cols = [(''id'', Null), (''username'', Null), (''password_hash'', Null), (''perfil'', Null)],
      pk = Some ''id'',
      rows = [[(''id'', IntV 1), (''username'', TextV ''master''),
               (''password_hash'', TextV ''abc''), (''perfil'', TextV ''Master'')],
              [(''id'', IntV 2), (''username'', TextV ''ana''),
               (''password_hash'', TextV ''xyz''), (''perfil'', Null)]]\<rparr>"

definition half_copied :: table where
  "half_copied = \<lparr>cols = users_columns, pk = Some ''id'', rows = [copy_row ''T0'' (hd (rows two_users))]\<rparr>"

definition half_copied_db :: db where
  "half_copied_db = \<lparr>tabs = [''users'' \<mapsto> two_users, ''users_new'' \<mapsto> half_copied], idxs = []\<rparr>"

definition tres_despesas_fixas :: table where
  "tres_despesas_fixas =
     \<lparr>cols = [(''id'', Null), (''descricao'', Null), (''valor'', Null), (''dia_vencimento'', Null)],
      pk = Some ''id'',
      rows = [[(''id'', IntV 1), (''descricao'', TextV ''aluguel''), (''valor'', IntV 1200),
               (''dia_vencimento'', IntV 5)],
              [(''id'', IntV 2), (''descricao'', TextV ''internet''), (''valor'', IntV 100),
               (''dia_vencimento'', IntV 10)],
              [(''id'', IntV 3), (''descricao'', TextV ''luz''), (''valor'', IntV 150),
               (''dia_vencimento'', IntV 15)]]\<rparr>"

definition so_despesas_fixas :: db where
  "so_despesas_fixas = \<lparr>tabs = [''despesas_fixas'' \<mapsto> tres_despesas_fixas], idxs = []\<rparr>"

definition com_users :: db where
  "com_users =
     \<lparr>tabs = [''despesas_fixas'' \<mapsto> tres_despesas_fixas, ''users'' \<mapsto> two_users], idxs = []\<rparr>"

definition sem_users :: db where
  "sem_users =
     \<lparr>tabs = [''categorias'' \<mapsto> \<lparr>cols = [(''id'', Null), (''nome'', Null)], pk = Some ''id'',
                                  rows = []\<rparr>,
              ''despesas'' \<mapsto> \<lparr>cols = [(''id'', Null), (''descricao'', Null), (''valor'', Null)],
                                pk = Some ''id'', rows = []\<rparr>],
      idxs = []\<rparr>"

text \<open>The file a run leaves, the report of a run, the backfill lines of a report for one
  column, and the database with one more row in a table.\<close>

definition file_after :: "bool \<times> db option \<times> action list \<Rightarrow> db option" where
  "file_after r = fst (snd r)"

definition report_of :: "bool \<times> db option \<times> action list \<Rightarrow> action list" where
  "report_of r = snd (snd r)"

definition backfills :: "string \<Rightarrow> string \<Rightarrow> action list \<Rightarrow> nat list" where
  "backfills t c log =
     concat (map (\<lambda>a. case a of RowsBackfilled u k n \<Rightarrow> if u = t \<and> k = c then [n] else []
                             | _ \<Rightarrow> []) log)"

definition columns_added :: "action list \<Rightarrow> (string \<times> string) list" where
  "columns_added log =
     concat (map (\<lambda>a. case a of ColumnAdded u k \<Rightarrow> [(u, k)] | _ \<Rightarrow> []) log)"

definition insert_into :: "string \<Rightarrow> row \<Rightarrow> db option \<Rightarrow> db option" where
  "insert_into t r file =
     (case file of None \<Rightarrow> None
      | Some d \<Rightarrow> (case sql_insert t r d of Inl e \<Rightarrow> Some d | Inr d1 \<Rightarrow> Some d1))"

definition column_values :: "string \<Rightarrow> string \<Rightarrow> db option \<Rightarrow> val list" where
  "column_values t c file =
     (case file of None \<Rightarrow> []
      | Some d \<Rightarrow> (case tabs d t of None \<Rightarrow> [] | Some T \<Rightarrow> map (\<lambda>r. getv r c) (rows T)))"

text \<open>The database an outcome holds, the number of \<^verbatim>\<open>categorias\<close> rows with a given name,
  and a \<^verbatim>\<open>categorias\<close> table that has the two columns the seeding query reads.\<close>

fun db_of :: "'a outcome \<Rightarrow> db" where
  "db_of (Done x d) = d"
| "db_of (Raised e d) = d"

definition count_nome :: "db \<Rightarrow> string \<Rightarrow> nat" where
  "count_nome d n =
     (case tabs d ''categorias'' of
        None \<Rightarrow> 0
      | Some C \<Rightarrow> length (filter (\<lambda>r. getv r ''nome'' = TextV n) (rows C)))"

definition categorias_legivel :: "db \<Rightarrow> bool" where
  "categorias_legivel d =
     (case tabs d ''categorias'' of
        None \<Rightarrow> False
      | Some C \<Rightarrow> ''id'' \<in> set (col_names C) \<and> ''nome'' \<in> set (col_names C))"

definition uma_categoria :: db where
  "uma_categoria =
     \<lparr>tabs = [''categorias'' \<mapsto>
               \<lparr>cols = [(''id'', Null), (''nome'', Null), (''descricao'', Null)], pk = Some ''id'',
                rows = [[(''id'', IntV 1), (''nome'', TextV ''Lazer''),
                         (''descricao'', TextV ''cinema'')]]\<rparr>],
      idxs = []\<rparr>"

text \<open>The database without the three temporary tables, and what it means that the table
  \<open>N\<close> is the complete rebuild of the users table \<open>U\<close>: the declared structure, and row
  by row the copied values (the id of a row is kept unless it was null).\<close>

definition without_temp :: "db \<Rightarrow> db" where
  "without_temp d = db_of (cleanup_temp_tables d)"

definition rebuilt :: "string \<Rightarrow> table \<Rightarrow> table \<Rightarrow> bool" where
  "rebuilt now U N =
     (cols N = users_columns \<and> pk N = Some ''id'' \<and>
      list_all (\<lambda>c. map (\<lambda>r. getv r c) (rows N) = map (\<lambda>r. getv (copy_row now r) c) (rows U))
        [''username'', ''password_hash'', ''perfil'', ''nome_completo'', ''email'', ''ativo'',
         ''created_at'', ''updated_at''] \<and>
      list_all2 (\<lambda>n u. getv u ''id'' = Null \<or> getv n ''id'' = getv u ''id'') (rows N) (rows U))"

definition users_sem_perfil :: db where
  "users_sem_perfil =
     \<lparr>tabs = [''users'' \<mapsto>
                \<lparr>cols = [(''id'', Null), (''username'', Null), (''password_hash'', Null)],
                 pk = Some ''id'',
                 rows = [[(''id'', IntV 1), (''username'', TextV ''ana''),
                          (''password_hash'', TextV ''xyz'')]]\<rparr>,
              ''users_new'' \<mapsto> half_copied],
      idxs = []\<rparr>"

text \<open>The columns whose nulls the reconciliation fills; what it means that a table, and a
  database, is kept: no table appears or disappears, the columns a table had come first
  and unchanged, the primary key and the number of rows are the same, and each value in
  a column the table had is the same, unless it was null in a column whose nulls are
  filled. A session keeps a database when its current state and the state it would roll
  back to keep it.\<close>

definition backfill_column :: "string \<Rightarrow> string \<Rightarrow> bool" where
  "backfill_column t c =
     ((c = ''created_at'' \<and> t \<in> set tabelas_com_created_at)
      \<or> (c = ''ativo'' \<and> t \<in> {''users'', ''categorias'', ''despesas_fixas''})
      \<or> (c = ''cor'' \<and> t = ''categorias''))"

definition table_kept :: "string \<Rightarrow> table \<Rightarrow> table \<Rightarrow> bool" where
  "table_kept t T T' =
     (prefix (cols T) (cols T') \<and> pk T' = pk T \<and>
      list_all2 (\<lambda>r r'. \<forall>c\<in>set (col_names T).
                   getv r' c = getv r c \<or> (getv r c = Null \<and> backfill_column t c))
        (rows T) (rows T'))"

definition db_kept :: "db \<Rightarrow> db \<Rightarrow> bool" where
  "db_kept d d' =
     (idxs d' = idxs d \<and>
      (\<forall>t. case tabs d t of
             None \<Rightarrow> tabs d' t = None
           | Some T \<Rightarrow> (\<exists>T'. tabs d' t = Some T' \<and> table_kept t T T')))"

definition session_keeps :: "db \<Rightarrow> session \<Rightarrow> bool" where
  "session_keeps d0 s =
     (db_kept d0 (cur s) \<and> (case snap s of None \<Rightarrow> True | Some d \<Rightarrow> db_kept d0 d))"

text \<open>An engine that refuses one alteration, and two more concrete databases: one whose
  \<^verbatim>\<open>categorias\<close> table lacks the newer columns, one with a migrated \<^verbatim>\<open>users\<close> table in
  which the user \<^verbatim>\<open>daniela\<close> was given the profile \<^verbatim>\<open>Master\<close> and a password of her own.\<close>

definition refuse_descricao :: "string \<Rightarrow> string \<Rightarrow> bool" where
  "refuse_descricao t c = (t = ''categorias'' \<and> c = ''descricao'')"

definition categorias_antiga :: db where
  "categorias_antiga =
     \<lparr>tabs = [''categorias'' \<mapsto>
               \<lparr>cols = [(''id'', Null), (''nome'', Null)], pk = Some ''id'',
                rows = [[(''id'', IntV 1), (''nome'', TextV ''Lazer'')]]\<rparr>],
      idxs = []\<rparr>"

definition daniela_master :: db where
  "daniela_master =
     \<lparr>tabs = [''users'' \<mapsto>
               \<lparr>cols = users_columns, pk = Some ''id'',
                rows = [[(''id'', IntV 1), (''username'', TextV ''daniela''),
                         (''password_hash'', TextV ''abc''), (''perfil'', TextV ''Master''),
                         (''nome_completo'', TextV ''Daniela S.''), (''email'', TextV ''d@x.org''),
                         (''ativo'', IntV 1), (''created_at'', TextV ''T''),
                         (''updated_at'', TextV ''T'')]]\<rparr>],
      idxs = []\<rparr>"

section \<open>Facts about the engine\<close>

lemma getv_update [simp]:
  "getv (AList.update c v r) c' = (if c' = c then v else getv r c')"
  by (simp add: getv_def update_conv')

lemma update_null_after_add:
  "(\<lambda>r. if getv r c = Null then AList.update c v r else r) \<circ> AList.update c Null
     = AList.update c v"
  by (rule ext) (simp add: AList.update_last)

lemma tabs_put_table [simp]: "tabs (put_table t T d) t' = (if t' = t then Some T else tabs d t')"
  by (simp add: put_table_def)

lemma idxs_put_table [simp]: "idxs (put_table t T d) = idxs d"
  by (simp add: put_table_def)

lemma put_table_twice [simp]: "put_table t T (put_table t T' d) = put_table t T d"
  by (simp add: put_table_def)

lemma col_names_simps [simp]:
  "col_names (T\<lparr>rows := rs\<rparr>) = col_names T"
  "col_names (T\<lparr>cols := cs\<rparr>) = map fst cs"
  by (simp_all add: col_names_def)

section \<open>Substitution of the ambiguous column names\<close>

text \<open>Every rule of the script replaces a keyword \<open>k\<close> followed by a column name \<open>g\<close> by
  \<open>k\<close>, the table prefix and \<open>g\<close>. The lemmas below show that such a replacement
  creates no occurrence of a pattern that ends in \<open>id\<close> and has no dot.\<close>

lemma prefix_replace:
  assumes old: "old = k @ g" and new: "new = k @ ''d.'' @ g" and k: "k \<noteq> []"
  shows "CHR ''.'' \<notin> set q \<Longrightarrow> \<not> suffix (k @ ''d'') q \<Longrightarrow>
         prefix q (str_replace old new s) \<Longrightarrow> prefix q s"
proof (induction s arbitrary: q rule: length_induct)
  case (1 s)
  show ?case
  proof (cases s)
    case Nil
    with 1 old k show ?thesis by simp
  next
    case (Cons c cs)
    show ?thesis
    proof (cases "prefix old s")
      case True
      then obtain rest where s: "s = k @ g @ rest" using old by (auto simp: prefix_def)
      have "str_replace old new s = new @ str_replace old new (drop (length old) s)"
        using True Cons old k by simp
      then have outp: "prefix q (k @ CHR ''d'' # CHR ''.'' # g @ str_replace old new (drop (length old) s))"
        using 1(4) new by simp
      then show ?thesis
      proof (cases "prefix q k")
        case True
        then show ?thesis using s by (simp add: prefix_def) (metis append.assoc)
      next
        case False
        with outp obtain us where us: "q = k @ us"
          "prefix us (CHR ''d'' # CHR ''.'' # g @ str_replace old new (drop (length old) s))"
          by (auto simp: prefix_append)
        then show ?thesis using 1(2,3) False
          by (auto simp: prefix_Cons suffix_def)
      qed
    next
      case False
      then have eq: "str_replace old new s = c # str_replace old new cs"
        using Cons old k by simp
      show ?thesis
      proof (cases q)
        case Nil
        then show ?thesis by simp
      next
        case (Cons a q')
        with eq 1(4) have a: "a = c" and p: "prefix q' (str_replace old new cs)" by auto
        have "CHR ''.'' \<notin> set q'" using 1(2) Cons by simp
        moreover have "\<not> suffix (k @ ''d'') q'" using 1(3) Cons by (auto simp: suffix_Cons)
        ultimately have "prefix q' cs" using 1(1) p \<open>s = c # cs\<close> by auto
        then show ?thesis using a Cons \<open>s = c # cs\<close> by simp
      qed
    qed
  qed
qed

lemma contains_iff: "contains q s \<longleftrightarrow> (\<exists>u v. s = u @ q @ v)"
proof (induction s)
  case Nil
  then show ?case by auto
next
  case (Cons c cs)
  show ?case
  proof
    assume "contains q (c # cs)"
    then consider "prefix q (c # cs)" | "contains q cs" by auto
    then show "\<exists>u v. c # cs = u @ q @ v"
    proof cases
      case 1
      then obtain v where "c # cs = q @ v" by (auto simp: prefix_def)
      then have "c # cs = [] @ q @ v" by simp
      then show ?thesis by blast
    next
      case 2
      with Cons obtain u v where "cs = u @ q @ v" by auto
      then have "c # cs = (c # u) @ q @ v" by simp
      then show ?thesis by blast
    qed
  next
    assume "\<exists>u v. c # cs = u @ q @ v"
    then obtain u v where uv: "c # cs = u @ q @ v" by auto
    show "contains q (c # cs)"
    proof (cases u)
      case Nil
      with uv have "prefix q (c # cs)" by (simp add: prefix_def)
      then show ?thesis by simp
    next
      case (Cons a u')
      with uv have "cs = u' @ q @ v" by simp
      then have "contains q cs" using Cons.IH by blast
      then show ?thesis by simp
    qed
  qed
qed

lemma contains_append_cases:
  "contains q (u @ v) \<Longrightarrow>
     (\<exists>u2. suffix u2 u \<and> u2 \<noteq> [] \<and> prefix q (u2 @ v)) \<or> contains q v"
proof (induction u)
  case Nil
  then show ?case by simp
next
  case (Cons a u)
  from Cons.prems consider "prefix q ((a # u) @ v)" | "contains q (u @ v)" by auto
  then show ?case
  proof cases
    case 1
    then show ?thesis by (metis list.distinct(1) suffix_order.order_refl)
  next
    case 2
    with Cons.IH show ?thesis by (auto simp: suffix_Cons)
  qed
qed

lemma prefix_app_replace:
  assumes old: "old = k @ g" and new: "new = k @ ''d.'' @ g" and k: "k \<noteq> []"
  shows "CHR ''.'' \<notin> set q \<Longrightarrow> \<not> suffix (k @ ''d'') q \<Longrightarrow>
         prefix q (u @ str_replace old new s) \<Longrightarrow> prefix q (u @ s)"
proof (induction u arbitrary: q)
  case Nil
  then show ?case using prefix_replace [OF old new k] by simp
next
  case (Cons a u)
  show ?case
  proof (cases q)
    case Nil
    then show ?thesis by simp
  next
    case (Cons b q')
    with Cons.prems have "b = a" "prefix q' (u @ str_replace old new s)"
      "CHR ''.'' \<notin> set q'" "\<not> suffix (k @ ''d'') q'"
      by (auto simp: suffix_Cons)
    then show ?thesis using Cons.IH Cons by simp
  qed
qed

lemma ends_id_not_kd:
  assumes "suffix ''id'' q" and "CHR ''i'' \<notin> set k" and "suffix t k"
  shows "q \<noteq> t @ ''d''"
proof
  assume "q = t @ ''d''"
  with assms(1) obtain x where "t @ ''d'' = x @ ''id''" by (auto simp: suffix_def)
  then have "t = x @ ''i''" by simp
  with assms(3) have "CHR ''i'' \<in> set k" by (auto simp: suffix_def)
  with assms(2) show False by simp
qed

lemma not_suffix_kd:
  assumes q2: "suffix ''id'' q" and ki: "CHR ''i'' \<notin> set k" and k: "k \<noteq> []"
  shows "\<not> suffix (k @ ''d'') q"
proof
  assume "suffix (k @ ''d'') q"
  then obtain x where "q = x @ k @ ''d''" by (auto simp: suffix_def)
  moreover from q2 obtain y where "q = y @ ''id''" by (auto simp: suffix_def)
  ultimately have "x @ k = y @ ''i''" by simp
  then have "last k = CHR ''i''" using k by (metis last_appendR last_snoc)
  then show False using ki k by (metis last_in_set)
qed

lemma contains_replace:
  assumes old: "old = k @ g" and new: "new = k @ ''d.'' @ g" and k: "k \<noteq> []"
    and ki: "CHR ''i'' \<notin> set k"
    and q1: "CHR ''.'' \<notin> set q" and q2: "suffix ''id'' q"
  shows "contains q (str_replace old new s) \<Longrightarrow> contains q s"
proof (induction s rule: length_induct)
  case (1 s)
  have nkd: "\<not> suffix (k @ ''d'') q"
    using not_suffix_kd [OF q2 ki k] .
  show ?case
  proof (cases s)
    case Nil
    with 1 old k show ?thesis by simp
  next
    case (Cons c cs)
    show ?thesis
    proof (cases "prefix old s")
      case False
      then have eq: "str_replace old new s = c # str_replace old new cs"
        using Cons old k by simp
      with 1(2) consider "prefix q (str_replace old new s)" | "contains q (str_replace old new cs)"
        by auto
      then show ?thesis
      proof cases
        case 1
        then have "prefix q s" using prefix_replace [OF old new k q1 nkd] by simp
        then show ?thesis using Cons by simp
      next
        case 2
        then have "contains q cs" using 1(1) Cons by simp
        then show ?thesis using Cons by simp
      qed
    next
      case True
      then obtain rest where s: "s = k @ g @ rest" using old by (auto simp: prefix_def)
      then have dr: "drop (length old) s = rest" using old by simp
      have lr: "length rest < length s" using s k by simp
      have outp: "str_replace old new s = (k @ ''d.'') @ (g @ str_replace old new rest)"
        using True Cons old k new dr by simp
      from 1(2) [unfolded outp] contains_append_cases
      consider u2 where "suffix u2 (k @ ''d.'')" "u2 \<noteq> []"
          "prefix q (u2 @ g @ str_replace old new rest)"
        | "contains q (g @ str_replace old new rest)" by blast
      then show ?thesis
      proof cases
        case 1
        from 1(1) consider "u2 = []" | "u2 = ''.''" | t where "suffix t k" "u2 = t @ ''d.''"
          by (auto simp: suffix_append suffix_Cons)
        then show ?thesis
        proof cases
          case 1
          with \<open>u2 \<noteq> []\<close> show ?thesis by simp
        next
          case 2
          with 1(3) q1 have "q = []" by (auto simp: prefix_Cons)
          then have "s = [] @ q @ s" by simp
          then show ?thesis unfolding contains_iff by blast
        next
          case 3
          with 1(3) have p: "prefix q (t @ CHR ''d'' # CHR ''.'' # g @ str_replace old new rest)"
            by simp
          show ?thesis
          proof (cases "prefix q t")
            case True
            then obtain y where "t = q @ y" by (auto simp: prefix_def)
            moreover from 3(1) obtain x where "k = x @ t" by (auto simp: suffix_def)
            ultimately have "s = x @ q @ (y @ g @ rest)" using s by simp
            then show ?thesis unfolding contains_iff by blast
          next
            case False
            with p obtain us where us: "q = t @ us"
              "prefix us (CHR ''d'' # CHR ''.'' # g @ str_replace old new rest)"
              by (auto simp: prefix_append)
            then have "us = [] \<or> us = ''d''" using q1 by (auto simp: prefix_Cons)
            with us False have "q = t @ ''d''" by auto
            with ends_id_not_kd [OF q2 ki 3(1)] show ?thesis by simp
          qed
        qed
      next
        case 2
        with contains_append_cases
        consider g2 where "suffix g2 g" "g2 \<noteq> []" "prefix q (g2 @ str_replace old new rest)"
          | "contains q (str_replace old new rest)" by blast
        then show ?thesis
        proof cases
          case 1
          then have "prefix q (g2 @ rest)" using prefix_app_replace [OF old new k q1 nkd] by simp
          then obtain y where "g2 @ rest = q @ y" by (auto simp: prefix_def)
          moreover from 1(1) obtain x where "g = x @ g2" by (auto simp: suffix_def)
          ultimately have "s = (k @ x) @ q @ y" using s by simp
          then show ?thesis unfolding contains_iff by blast
        next
          case 2
          then have "contains q rest" using \<open>\<forall>ys. length ys < length s \<longrightarrow> _\<close> lr by simp
          then obtain u v where "rest = u @ q @ v" unfolding contains_iff by blast
          then have "s = (k @ g @ u) @ q @ v" using s by simp
          then show ?thesis unfolding contains_iff by blast
        qed
      qed
    qed
  qed
qed

lemma split_keyword_append: "fst (split_keyword b) @ snd (split_keyword b) = b"
  by (simp add: split_keyword_def flip: rev_append)

lemma take2_rev_suffix: "take 2 (rev b) = ''di'' \<Longrightarrow> suffix ''id'' b"
proof -
  assume a: "take 2 (rev b) = ''di''"
  have "rev b = take 2 (rev b) @ drop 2 (rev b)" by simp
  with a have "rev b = ''di'' @ drop 2 (rev b)" by simp
  then have "rev (rev b) = rev (''di'' @ drop 2 (rev b))" by simp
  then have "b = rev (drop 2 (rev b)) @ ''id''" by simp
  then show ?thesis unfolding suffix_def by blast
qed

lemma not_contains_replace_self:
  assumes old: "old = k @ g" and new: "new = k @ ''d.'' @ g" and k: "k \<noteq> []"
    and ki: "CHR ''i'' \<notin> set k"
    and q1: "CHR ''.'' \<notin> set old" and q2: "suffix ''id'' old" and hk: "hd k \<notin> set g"
  shows "\<not> contains old (str_replace old new s)"
proof (induction s rule: length_induct)
  case (1 s)
  have nkd: "\<not> suffix (k @ ''d'') old"
    using not_suffix_kd [OF q2 ki k] .
  have gne: "g \<noteq> []"
  proof
    assume "g = []"
    with old q2 obtain x where "k = x @ ''id''" by (auto simp: suffix_def)
    with ki show False by simp
  qed
  show ?case
  proof (cases s)
    case Nil
    with old k show ?thesis by simp
  next
    case (Cons c cs)
    show ?thesis
    proof (cases "prefix old s")
      case False
      then have eq: "str_replace old new s = c # str_replace old new cs"
        using Cons old k by simp
      have "\<not> prefix old (str_replace old new s)"
        using prefix_replace [OF old new k q1 nkd] False by blast
      moreover have "\<not> contains old (str_replace old new cs)" using 1 Cons by simp
      ultimately show ?thesis using eq by simp
    next
      case True
      then obtain rest where s: "s = k @ g @ rest" using old by (auto simp: prefix_def)
      then have dr: "drop (length old) s = rest" using old by simp
      have lr: "length rest < length s" using s k by simp
      have outp: "str_replace old new s = (k @ ''d.'') @ (g @ str_replace old new rest)"
        using True Cons old k new dr by simp
      show ?thesis
      proof
        assume "contains old (str_replace old new s)"
        from this [unfolded outp] contains_append_cases
        consider u2 where "suffix u2 (k @ ''d.'')" "u2 \<noteq> []"
            "prefix old (u2 @ g @ str_replace old new rest)"
          | "contains old (g @ str_replace old new rest)" by blast
        then show False
        proof cases
          case 1
          from 1(1) consider "u2 = []" | "u2 = ''.''" | t where "suffix t k" "u2 = t @ ''d.''"
            by (auto simp: suffix_append suffix_Cons)
          then show ?thesis
          proof cases
            case 1
            with \<open>u2 \<noteq> []\<close> show ?thesis by simp
          next
            case 2
            with 1(3) q1 have "old = []" by (auto simp: prefix_Cons)
            with old k show ?thesis by simp
          next
            case 3
            with 1(3) have p: "prefix old (t @ CHR ''d'' # CHR ''.'' # g @ str_replace old new rest)"
              by simp
            show ?thesis
            proof (cases "prefix old t")
              case True
              then have "length old \<le> length t" by (rule prefix_length_le)
              moreover have "length t \<le> length k" using 3(1) by (rule suffix_length_le)
              moreover have "0 < length g" using gne by simp
              ultimately show ?thesis using old by simp
            next
              case False
              with p obtain us where us: "old = t @ us"
                "prefix us (CHR ''d'' # CHR ''.'' # g @ str_replace old new rest)"
                by (auto simp: prefix_append)
              then have "us = [] \<or> us = ''d''" using q1 by (auto simp: prefix_Cons)
              with us False have "old = t @ ''d''" by auto
              with ends_id_not_kd [OF q2 ki 3(1)] show ?thesis by simp
            qed
          qed
        next
          case 2
          with contains_append_cases
          consider g2 where "suffix g2 g" "g2 \<noteq> []" "prefix old (g2 @ str_replace old new rest)"
            | "contains old (str_replace old new rest)" by blast
          then show ?thesis
          proof cases
            case 1
            from 1(2) obtain a g3 where g2: "g2 = a # g3" by (cases g2) auto
            with 1(1) have "a \<in> set g" by (auto simp: suffix_def)
            moreover from 1(3) g2 old k have "hd k = a" by (cases k) (auto simp: prefix_Cons)
            ultimately show ?thesis using hk by simp
          next
            case 2
            then show ?thesis using \<open>\<forall>ys. length ys < length s \<longrightarrow> _\<close> lr by simp
          qed
        qed
      qed
    qed
  qed
qed

lemma regras_ok: "\<forall>q\<in>set consultas_especificas. regra_ok q"
  by (simp add: consultas_especificas_def regra_ok_def split_keyword_def strip_def is_space_def)

lemma regra_ok_replace:
  assumes r: "regra_ok q"
  shows "\<not> contains (strip (buscar q)) (str_replace (strip (buscar q)) (strip (substituir q)) s)"
    and "padrao_ok p \<Longrightarrow> \<not> contains p s \<Longrightarrow>
         \<not> contains p (str_replace (strip (buscar q)) (strip (substituir q)) s)"
    and "padrao_ok (strip (buscar q))"
proof -
  define b where "b = strip (buscar q)"
  define k where "k = fst (split_keyword b)"
  define g where "g = snd (split_keyword b)"
  have old: "b = k @ g" by (simp add: k_def g_def split_keyword_append)
  from r have new: "strip (substituir q) = k @ ''d.'' @ g" and k: "k \<noteq> []"
    and ki: "CHR ''i'' \<notin> set k" and q1: "CHR ''.'' \<notin> set b"
    and t2: "take 2 (rev b) = ''di''" and hk: "hd k \<notin> set g"
    by (simp_all add: regra_ok_def Let_def b_def k_def g_def)
  have q2: "suffix ''id'' b" using t2 by (rule take2_rev_suffix)
  show "\<not> contains (strip (buscar q)) (str_replace (strip (buscar q)) (strip (substituir q)) s)"
    using not_contains_replace_self [OF old new k ki q1 q2 hk] by (simp add: b_def)
  show "padrao_ok (strip (buscar q))" using q1 q2 by (simp add: padrao_ok_def b_def)
  show "padrao_ok p \<Longrightarrow> \<not> contains p s \<Longrightarrow>
         \<not> contains p (str_replace (strip (buscar q)) (strip (substituir q)) s)"
    using contains_replace [OF old new k ki, of p s] by (auto simp: padrao_ok_def b_def)
qed

lemma aplicar_consultas_removes:
  "\<forall>q\<in>set qs. regra_ok q \<Longrightarrow> \<forall>p\<in>P. padrao_ok p \<and> \<not> contains p s \<Longrightarrow>
   p \<in> P \<union> (\<lambda>q. strip (buscar q)) ` set qs \<Longrightarrow>
   \<not> contains p (fst (aplicar_consultas qs s cs))"
proof (induction qs arbitrary: P s cs)
  case Nil
  then show ?case by simp
next
  case (Cons q qs)
  let ?b = "strip (buscar q)"
  have rq: "regra_ok q" and rqs: "\<forall>q\<in>set qs. regra_ok q" using Cons.prems(1) by simp_all
  have pin: "p \<in> insert ?b P \<union> (\<lambda>q. strip (buscar q)) ` set qs" using Cons.prems(3) by auto
  show ?case
  proof (cases "contains ?b s")
    case True
    let ?s' = "str_replace ?b (strip (substituir q)) s"
    have "\<forall>p\<in>insert ?b P. padrao_ok p \<and> \<not> contains p ?s'"
      using regra_ok_replace [OF rq] Cons.prems(2) by auto
    from Cons.IH [OF rqs this pin] show ?thesis using True by simp
  next
    case False
    have "\<forall>p\<in>insert ?b P. padrao_ok p \<and> \<not> contains p s"
      using regra_ok_replace(3) [OF rq] Cons.prems(2) False by auto
    from Cons.IH [OF rqs this pin] show ?thesis using False by simp
  qed
qed

lemma aplicar_consultas_unchanged:
  "\<forall>q\<in>set qs. \<not> contains (strip (buscar q)) s \<Longrightarrow> aplicar_consultas qs s cs = (s, cs)"
  by (induction qs arbitrary: cs) auto

lemma aplicar_consultas_correcoes:
  "snd (aplicar_consultas qs s cs) = [] \<Longrightarrow>
     cs = [] \<and> (\<forall>q\<in>set qs. \<not> contains (strip (buscar q)) s)"
proof (induction qs arbitrary: s cs)
  case Nil
  then show ?case by simp
next
  case (Cons q qs)
  show ?case
  proof (cases "contains (strip (buscar q)) s")
    case True
    with Cons.prems Cons.IH [of "str_replace (strip (buscar q)) (strip (substituir q)) s"
        "cs @ [(descricao q, str_count (strip (buscar q)) s)]"]
    show ?thesis by simp
  next
    case False
    with Cons.prems Cons.IH [of s cs] show ?thesis by simp
  qed
qed

lemma padroes_buscar: "map (\<lambda>q. strip (buscar q)) consultas_especificas = padroes"
  by (simp add: consultas_especificas_def padroes_def strip_def is_space_def)

lemma corrigir_example:
  "corrigir_consultas_especificas ''x WHERE grupo_id = 1 AND user_id = 2'' =
     (Some ''x WHERE d.grupo_id = 1 AND d.user_id = 2'',
      [(''Corrigir WHERE grupo_id para d.grupo_id'', 1),
       (''Corrigir AND user_id para d.user_id'', 1)])"
  by (simp add: corrigir_consultas_especificas_def consultas_especificas_def strip_def
      is_space_def)

text \<open>
  Claim C10. For every text, the output of \<^verbatim>\<open>corrigir_consultas_especificas\<close> holds none
  of the seven searched patterns, so applying the function to its own output changes
  nothing more: the second application finds nothing to correct, which the function
  reports by returning \<^verbatim>\<open>None\<close> and an empty list of corrections. (When the first
  application itself returns \<^verbatim>\<open>None\<close>, the input held none of the patterns.)
\<close>

theorem corrigir_consultas_especificas_idempotent:
  "(corrigir_consultas_especificas s = (Some res, cs) \<longrightarrow>
      (\<forall>p\<in>set padroes. \<not> contains p res) \<and>
      corrigir_consultas_especificas res = (None, [])) \<and>
   (corrigir_consultas_especificas s = (None, cs) \<longrightarrow>
      cs = [] \<and> (\<forall>p\<in>set padroes. \<not> contains p s))"
proof (intro conjI impI)
  assume a: "corrigir_consultas_especificas s = (Some res, cs)"
  then have res: "res = fst (aplicar_consultas consultas_especificas s [])"
    by (auto simp: corrigir_consultas_especificas_def split: prod.splits if_splits)
  have set_eq: "set padroes = (\<lambda>q. strip (buscar q)) ` set consultas_especificas"
    using padroes_buscar by (metis set_map)
  show free: "\<forall>p\<in>set padroes. \<not> contains p res"
  proof
    fix p assume "p \<in> set padroes"
    then have "p \<in> {} \<union> (\<lambda>q. strip (buscar q)) ` set consultas_especificas"
      using set_eq by simp
    from aplicar_consultas_removes [OF regras_ok _ this, of s "[]"]
    show "\<not> contains p res" using res by simp
  qed
  then have "\<forall>q\<in>set consultas_especificas. \<not> contains (strip (buscar q)) res"
    using set_eq by auto
  then have "aplicar_consultas consultas_especificas res [] = (res, [])"
    by (rule aplicar_consultas_unchanged)
  then show "corrigir_consultas_especificas res = (None, [])"
    by (simp add: corrigir_consultas_especificas_def)
next
  assume a: "corrigir_consultas_especificas s = (None, cs)"
  then show "cs = []"
    by (auto simp: corrigir_consultas_especificas_def split: prod.splits if_splits)
  from a have "snd (aplicar_consultas consultas_especificas s []) = []"
    by (auto simp: corrigir_consultas_especificas_def split: prod.splits if_splits)
  then have "\<forall>q\<in>set consultas_especificas. \<not> contains (strip (buscar q)) s"
    using aplicar_consultas_correcoes by blast
  moreover have "set padroes = (\<lambda>q. strip (buscar q)) ` set consultas_especificas"
    using padroes_buscar by (metis set_map)
  ultimately show "\<forall>p\<in>set padroes. \<not> contains p s" by auto
qed

theorem corrigir_consultas_especificas_idempotent_witness:
  "corrigir_consultas_especificas ''x WHERE grupo_id = 1 AND user_id = 2'' =
     (Some ''x WHERE d.grupo_id = 1 AND d.user_id = 2'',
      [(''Corrigir WHERE grupo_id para d.grupo_id'', 1),
       (''Corrigir AND user_id para d.user_id'', 1)]) \<and>
   \<not> contains ''WHERE grupo_id'' ''x WHERE d.grupo_id = 1 AND d.user_id = 2'' \<and>
   \<not> contains ''AND user_id'' ''x WHERE d.grupo_id = 1 AND d.user_id = 2'' \<and>
   corrigir_consultas_especificas ''x WHERE d.grupo_id = 1 AND d.user_id = 2'' = (None, [])"
  using corrigir_consultas_especificas_idempotent
    [of "''x WHERE grupo_id = 1 AND user_id = 2''" "''x WHERE d.grupo_id = 1 AND d.user_id = 2''"
        "[(''Corrigir WHERE grupo_id para d.grupo_id'', 1),
          (''Corrigir AND user_id para d.user_id'', 1)]"]
    corrigir_example
  by (simp add: padroes_def)

section \<open>Adding a column without a default\<close>

lemma sql_add_column_ok:
  "tabs d t = Some T \<Longrightarrow> c \<notin> set (col_names T) \<Longrightarrow> \<not> refuse t c \<Longrightarrow>
   sql_add_column refuse t c v d = Inr (with_column t T c v v d)"
  by (simp add: sql_add_column_def with_column_def)

lemma sql_update_null_with_column:
  "sql_update_null t c v (with_column t T c dflt Null d) = Inr (with_column t T c dflt v d)"
  by (simp add: sql_update_null_def with_column_def update_null_after_add)

text \<open>
  Claim C7. When \<^verbatim>\<open>safe_add_column\<close> (of either script) adds a column that has no declared
  default, the column is null in every existing row right after the alteration; if and
  only if the column is \<^verbatim>\<open>created_at\<close>, every row is then set to the current timestamp.
  For any other such column nothing is filled in and the rows keep a null there. The
  other columns of the rows, and the other tables, are as before.
\<close>

theorem created_at_backfill_rule:
  assumes T: "tabs d t = Some T" and c: "c \<notin> set (col_names T)" and r: "\<not> refuse t c"
  shows "safe_add_column refuse now t c ty None \<lparr>cur = d, snap = sn, out = lg\<rparr>
           = (True, \<lparr>cur = with_column t T c Null (added_value now c) d,
                     snap = (if c = ''created_at'' \<and> sn = None
                             then Some (with_column t T c Null Null d) else sn),
                     out = lg @ [ColumnAdded t c]\<rparr>)
         \<and> safe_add_column_v3 refuse now t c ty None d
           = Done True (with_column t T c Null (added_value now c) d)
         \<and> list_all (\<lambda>x. getv x c = added_value now c)
             (map (AList.update c (added_value now c)) (rows T))"
proof (intro conjI)
  have ce: "\<not> column_exists d t c"
    using T c by (simp add: column_exists_def get_table_columns_def)
  note add = sql_add_column_ok [where refuse = refuse and v = Null, OF T c r]
  show "safe_add_column refuse now t c ty None \<lparr>cur = d, snap = sn, out = lg\<rparr>
           = (True, \<lparr>cur = with_column t T c Null (added_value now c) d,
                     snap = (if c = ''created_at'' \<and> sn = None
                             then Some (with_column t T c Null Null d) else sn),
                     out = lg @ [ColumnAdded t c]\<rparr>)"
    using ce add
    by (simp add: safe_add_column_def exec_ddl_def exec_dml_def report_def added_value_def
        sql_update_null_with_column)
  show "safe_add_column_v3 refuse now t c ty None d
           = Done True (with_column t T c Null (added_value now c) d)"
    using ce add
    by (simp add: safe_add_column_v3_def and_then_def run_sql_def added_value_def
        sql_update_null_with_column)
  show "list_all (\<lambda>x. getv x c = added_value now c)
             (map (AList.update c (added_value now c)) (rows T))"
    by (simp add: list_all_iff)
qed

theorem created_at_backfill_rule_witness:
  "tabs tiny_db ''despesas'' = Some tiny_despesas \<and>
   ''created_at'' \<notin> set (col_names tiny_despesas) \<and>
   ''observacoes'' \<notin> set (col_names tiny_despesas) \<and>
   \<not> no_refusal ''despesas'' ''created_at'' \<and>
   safe_add_column no_refusal ''T0'' ''despesas'' ''created_at'' ''TEXT'' None
       \<lparr>cur = tiny_db, snap = None, out = []\<rparr>
     = (True, \<lparr>cur = with_column ''despesas'' tiny_despesas ''created_at'' Null (TextV ''T0'') tiny_db,
               snap = Some (with_column ''despesas'' tiny_despesas ''created_at'' Null Null tiny_db),
               out = [ColumnAdded ''despesas'' ''created_at'']\<rparr>) \<and>
   safe_add_column_v3 no_refusal ''T0'' ''despesas'' ''created_at'' ''TEXT'' None tiny_db
     = Done True (with_column ''despesas'' tiny_despesas ''created_at'' Null (TextV ''T0'') tiny_db) \<and>
   safe_add_column no_refusal ''T0'' ''despesas'' ''observacoes'' ''TEXT'' None
       \<lparr>cur = tiny_db, snap = None, out = []\<rparr>
     = (True, \<lparr>cur = with_column ''despesas'' tiny_despesas ''observacoes'' Null Null tiny_db,
               snap = None, out = [ColumnAdded ''despesas'' ''observacoes'']\<rparr>) \<and>
   safe_add_column_v3 no_refusal ''T0'' ''despesas'' ''observacoes'' ''TEXT'' None tiny_db
     = Done True (with_column ''despesas'' tiny_despesas ''observacoes'' Null Null tiny_db)"
proof -
  have T: "tabs tiny_db ''despesas'' = Some tiny_despesas" by (simp add: tiny_db_def)
  have c1: "''created_at'' \<notin> set (col_names tiny_despesas)"
    by (simp add: tiny_despesas_def col_names_def)
  have c2: "''observacoes'' \<notin> set (col_names tiny_despesas)"
    by (simp add: tiny_despesas_def col_names_def)
  have r1: "\<not> no_refusal ''despesas'' ''created_at''" by (simp add: no_refusal_def)
  have r2: "\<not> no_refusal ''despesas'' ''observacoes''" by (simp add: no_refusal_def)
  show ?thesis
    using created_at_backfill_rule [where refuse = no_refusal, OF T c1 r1,
        of "''T0''" "''TEXT''" None "[]"]
      created_at_backfill_rule [where refuse = no_refusal, OF T c2 r2,
        of "''T0''" "''TEXT''" None "[]"]
      T c1 c2 r1
    by (simp add: added_value_def)
qed

section \<open>The row-count guard of the users rebuild\<close>

text \<open>
  Claim C3. Lines 129-138 of \<^verbatim>\<open>migrate_users_table\<close>: if, once the rows are copied, the
  row count of \<^verbatim>\<open>users_new\<close> differs from that of \<^verbatim>\<open>users\<close>, the code raises the data-loss
  error with both counts, and the database at that moment is the one the check found:
  \<^verbatim>\<open>users\<close> is neither dropped nor replaced.
\<close>

theorem row_count_guard:
  assumes "tabs d ''users'' = Some U" and "tabs d ''users_new'' = Some N"
    and "length (rows U) \<noteq> length (rows N)"
  shows "verify_and_swap d = Raised (DataLoss (length (rows U)) (length (rows N))) d"
  using assms by (simp add: verify_and_swap_def sql_count_def)

theorem row_count_guard_witness:
  "tabs half_copied_db ''users'' = Some two_users \<and>
   tabs half_copied_db ''users_new'' = Some half_copied \<and>
   length (rows two_users) \<noteq> length (rows half_copied) \<and>
   verify_and_swap half_copied_db = Raised (DataLoss 2 1) half_copied_db"
proof -
  have U: "tabs half_copied_db ''users'' = Some two_users" by (simp add: half_copied_db_def)
  have N: "tabs half_copied_db ''users_new'' = Some half_copied" by (simp add: half_copied_db_def)
  have ne: "length (rows two_users) \<noteq> length (rows half_copied)"
    by (simp add: two_users_def half_copied_def)
  show ?thesis using row_count_guard [OF U N ne] U N ne
    by (simp add: two_users_def half_copied_def)
qed

section \<open>The exit status of the scripts\<close>

text \<open>
  Claim C8 says that the exit status is 0 when the run succeeds and nonzero when it
  fails. It does not hold: run on a missing database file,
  \<^verbatim>\<open>verificar_e_corrigir_estrutura\<close> returns \<^verbatim>\<open>False\<close>, the script prints its failure message,
  waits for Enter and ends with status 0.
\<close>

theorem exit_status_counterexample:
  "correcao_main no_refusal ''T0'' None (Some '''') = (None, False, [DatabaseNotFound], 0)"
  by (simp add: correcao_main_def verificar_e_corrigir_estrutura_def pause_and_exit_def)

text \<open>
  Claim C8, amended. The exit status of either script does not depend on whether the run
  succeeded: it is 0 whenever the final prompt is answered, after a failed run too (the
  failure is told by the printed message only), and 1 when the prompt cannot be read.
\<close>

theorem exit_status_ignores_outcome:
  "snd (snd (snd (correcao_main refuse now file stdin))) = pause_and_exit stdin \<and>
   snd (snd (migrate_main hash refuse now isonow d stdin)) = pause_and_exit stdin \<and>
   pause_and_exit (Some line) = 0 \<and> pause_and_exit None = 1"
  by (simp add: correcao_main_def migrate_main_def pause_and_exit_def split: prod.splits)

section \<open>The backfill scenario\<close>

text \<open>
  Claim C6 says that on a database holding only \<^verbatim>\<open>despesas_fixas\<close> (three rows, no \<^verbatim>\<open>ativo\<close>
  column) the first run reports a backfill of 3 rows for \<^verbatim>\<open>ativo\<close>. It does not: the
  column is added with \<^verbatim>\<open>DEFAULT 1\<close>, which the engine gives to the three rows, so no null
  is left to count; and the run ends in failure at the query on the missing \<^verbatim>\<open>users\<close>
  table before it reaches \<^verbatim>\<open>despesas_fixas\<close>.
\<close>

theorem backfill_scenario_counterexample:
  "fst (verificar_e_corrigir_estrutura no_refusal ''T0'' (Some so_despesas_fixas)) = False \<and>
   backfills ''despesas_fixas'' ''ativo''
     (report_of (verificar_e_corrigir_estrutura no_refusal ''T0'' (Some so_despesas_fixas))) = [] \<and>
   column_values ''despesas_fixas'' ''ativo''
     (file_after (verificar_e_corrigir_estrutura no_refusal ''T0'' (Some so_despesas_fixas)))
     = [IntV 1, IntV 1, IntV 1] \<and>
   last (report_of (verificar_e_corrigir_estrutura no_refusal ''T0'' (Some so_despesas_fixas)))
     = RunFailed (NoSuchTable ''users'')"
  by code_simp

text \<open>
  Claim C6, amended. Starting from a database with a \<^verbatim>\<open>users\<close> table and a
  \<^verbatim>\<open>despesas_fixas\<close> table of three rows that lacks \<^verbatim>\<open>ativo\<close>, one run succeeds, adds the
  column with default 1, leaves the three rows with \<^verbatim>\<open>ativo = 1\<close> and reports no backfill
  for it; after a further row is inserted with \<^verbatim>\<open>ativo = NULL\<close>, a second run reports a
  backfill of exactly one row for (\<^verbatim>\<open>despesas_fixas\<close>, \<^verbatim>\<open>ativo\<close>) and leaves all four rows
  with \<^verbatim>\<open>ativo = 1\<close>.
\<close>

theorem backfill_scenario:
  "fst (verificar_e_corrigir_estrutura no_refusal ''T0'' (Some com_users)) = True \<and>
   (''despesas_fixas'', ''ativo'') \<in> set (columns_added
      (report_of (verificar_e_corrigir_estrutura no_refusal ''T0'' (Some com_users)))) \<and>
   backfills ''despesas_fixas'' ''ativo''
     (report_of (verificar_e_corrigir_estrutura no_refusal ''T0'' (Some com_users))) = [] \<and>
   column_values ''despesas_fixas'' ''ativo''
     (file_after (verificar_e_corrigir_estrutura no_refusal ''T0'' (Some com_users)))
     = [IntV 1, IntV 1, IntV 1] \<and>
   column_values ''despesas_fixas'' ''ativo''
     (insert_into ''despesas_fixas'' [(''descricao'', TextV ''gas''), (''ativo'', Null)]
        (file_after (verificar_e_corrigir_estrutura no_refusal ''T0'' (Some com_users))))
     = [IntV 1, IntV 1, IntV 1, Null] \<and>
   fst (verificar_e_corrigir_estrutura no_refusal ''T1''
     (insert_into ''despesas_fixas'' [(''descricao'', TextV ''gas''), (''ativo'', Null)]
        (file_after (verificar_e_corrigir_estrutura no_refusal ''T0'' (Some com_users))))) = True \<and>
   backfills ''despesas_fixas'' ''ativo''
     (report_of (verificar_e_corrigir_estrutura no_refusal ''T1''
        (insert_into ''despesas_fixas'' [(''descricao'', TextV ''gas''), (''ativo'', Null)]
           (file_after (verificar_e_corrigir_estrutura no_refusal ''T0'' (Some com_users)))))) = [1] \<and>
   column_values ''despesas_fixas'' ''ativo''
     (file_after (verificar_e_corrigir_estrutura no_refusal ''T1''
        (insert_into ''despesas_fixas'' [(''descricao'', TextV ''gas''), (''ativo'', Null)]
           (file_after (verificar_e_corrigir_estrutura no_refusal ''T0'' (Some com_users))))))
     = [IntV 1, IntV 1, IntV 1, IntV 1]"
  by code_simp

section \<open>Running the reconciliation twice\<close>

text \<open>
  Claim C1 (a second run changes nothing, adds no column and fills no row) is what the
  script is written for, but the code misses it on a database without a \<^verbatim>\<open>users\<close> table.
  The consistency pass queries \<^verbatim>\<open>users\<close> without the \<^verbatim>\<open>table_exists\<close> guard its siblings
  have, so the run ends in the exception handler, whose rollback undoes only what came
  after the first \<^verbatim>\<open>UPDATE\<close>. On the database below the first run keeps the columns added
  to \<^verbatim>\<open>categorias\<close> and loses those added to \<^verbatim>\<open>despesas\<close>; the second run adds the ten
  columns of \<^verbatim>\<open>despesas\<close> again, and this time they stay.
\<close>

theorem second_run_adds_columns:
  "fst (verificar_e_corrigir_estrutura no_refusal ''T0'' (Some sem_users)) = False \<and>
   map_option (\<lambda>d. get_table_columns d ''despesas'')
     (file_after (verificar_e_corrigir_estrutura no_refusal ''T0'' (Some sem_users)))
     = Some [''id'', ''descricao'', ''valor''] \<and>
   map_option (\<lambda>d. get_table_columns d ''categorias'')
     (file_after (verificar_e_corrigir_estrutura no_refusal ''T0'' (Some sem_users)))
     = Some [''id'', ''nome'', ''descricao'', ''cor'', ''icone'', ''ativo'', ''created_at''] \<and>
   fst (verificar_e_corrigir_estrutura no_refusal ''T1''
     (file_after (verificar_e_corrigir_estrutura no_refusal ''T0'' (Some sem_users)))) = False \<and>
   columns_added (report_of (verificar_e_corrigir_estrutura no_refusal ''T1''
     (file_after (verificar_e_corrigir_estrutura no_refusal ''T0'' (Some sem_users)))))
     = [(''despesas'', ''cartao_id''), (''despesas'', ''grupo_id''),
        (''despesas'', ''despesa_fixa_id''), (''despesas'', ''parcela_atual''),
        (''despesas'', ''total_parcelas''), (''despesas'', ''grupo_parcela''),
        (''despesas'', ''tipo''), (''despesas'', ''observacoes''), (''despesas'', ''user_id''),
        (''despesas'', ''created_at'')] \<and>
   map_option (\<lambda>d. get_table_columns d ''despesas'')
     (file_after (verificar_e_corrigir_estrutura no_refusal ''T1''
        (file_after (verificar_e_corrigir_estrutura no_refusal ''T0'' (Some sem_users)))))
     = Some [''id'', ''descricao'', ''valor'', ''cartao_id'', ''grupo_id'', ''despesa_fixa_id'',
             ''parcela_atual'', ''total_parcelas'', ''grupo_parcela'', ''tipo'', ''observacoes'',
             ''user_id'', ''created_at'']"
  by code_simp

section \<open>Seeding the default categories\<close>

lemma map_of_map_key:
  "map_of (map (\<lambda>(k, v). (k, f k v)) xs) c = map_option (f c) (map_of xs c)"
  by (induction xs) auto

lemma getv_new_row:
  "c \<in> set (col_names T) \<Longrightarrow> map_of r c = Some w \<Longrightarrow> w \<noteq> Null \<Longrightarrow> getv (new_row T r) c = w"
proof -
  assume c: "c \<in> set (col_names T)" and r: "map_of r c = Some w" and w: "w \<noteq> Null"
  from c have "map_of (cols T) c \<noteq> None"
    by (simp add: col_names_def map_of_eq_None_iff)
  then obtain dflt where "map_of (cols T) c = Some dflt" by auto
  then show ?thesis using r w
    by (simp add: new_row_def getv_def map_of_map_key new_cell_def)
qed

lemma select_first_cases:
  "sql_select_first ''categorias'' ''id'' ''nome'' (TextV n) d = Inr (Some i) \<Longrightarrow>
     0 < count_nome d n \<and> categorias_legivel d"
  "sql_select_first ''categorias'' ''id'' ''nome'' (TextV n) d = Inr None \<Longrightarrow>
     count_nome d n = 0 \<and> categorias_legivel d"
  "sql_select_first ''categorias'' ''id'' ''nome'' (TextV n) d = Inl e \<Longrightarrow>
     \<not> categorias_legivel d"
  by (auto simp: sql_select_first_def count_nome_def categorias_legivel_def
      split: option.splits if_splits list.splits)

lemma select_first_found:
  "0 < count_nome d n \<Longrightarrow> categorias_legivel d \<Longrightarrow>
   \<exists>i. sql_select_first ''categorias'' ''id'' ''nome'' (TextV n) d = Inr (Some i)"
  by (auto simp: sql_select_first_def count_nome_def categorias_legivel_def
      split: option.splits if_splits list.splits)

lemma insert_categoria_safe_present:
  "0 < count_nome d nome \<Longrightarrow> db_of (insert_categoria_safe isonow nome descr cor icone d) = d"
proof -
  assume pos: "0 < count_nome d nome"
  show ?thesis
  proof (cases "sql_select_first ''categorias'' ''id'' ''nome'' (TextV nome) d")
    case (Inl e)
    then show ?thesis by (simp add: insert_categoria_safe_def)
  next
    case (Inr x)
    with pos select_first_cases(2) [of nome d] obtain i where "x = Some i" by (cases x) auto
    with Inr show ?thesis by (simp add: insert_categoria_safe_def)
  qed
qed

lemma insert_categoria_safe_present_done:
  "0 < count_nome d nome \<Longrightarrow> categorias_legivel d \<Longrightarrow>
   insert_categoria_safe isonow nome descr cor icone d = Done () d"
  using select_first_found [of d nome] by (auto simp: insert_categoria_safe_def)

lemma insert_categoria_safe_count:
  assumes "insert_categoria_safe isonow nome descr cor icone d = Done () d'"
  shows "count_nome d' n = (if n = nome \<and> count_nome d nome = 0 then 1 else count_nome d n)"
    and "categorias_legivel d'"
proof -
  have "count_nome d' n = (if n = nome \<and> count_nome d nome = 0 then 1 else count_nome d n)
        \<and> categorias_legivel d'"
  proof (cases "sql_select_first ''categorias'' ''id'' ''nome'' (TextV nome) d")
    case (Inl e)
    with assms show ?thesis by (simp add: insert_categoria_safe_def)
  next
    case (Inr x)
    show ?thesis
    proof (cases x)
      case (Some i)
      with Inr assms have "d' = d" by (simp add: insert_categoria_safe_def)
      with select_first_cases(1) [of nome d i] Inr Some show ?thesis by auto
    next
      case None
      with Inr select_first_cases(2) [of nome d]
      have zero: "count_nome d nome = 0" and leg: "categorias_legivel d" by auto
      from leg obtain C where C: "tabs d ''categorias'' = Some C"
        and nm: "''nome'' \<in> set (col_names C)" and idc: "''id'' \<in> set (col_names C)"
        by (auto simp: categorias_legivel_def split: option.splits)
      define r where "r = [(''nome'', TextV nome)]
          @ (if ''descricao'' \<in> set (get_table_columns d ''categorias'')
             then [(''descricao'', TextV descr)] else [])
          @ (if ''cor'' \<in> set (get_table_columns d ''categorias'') then [(''cor'', TextV cor)] else [])
          @ (if ''icone'' \<in> set (get_table_columns d ''categorias'')
             then [(''icone'', TextV icone)] else [])
          @ (if ''ativo'' \<in> set (get_table_columns d ''categorias'') then [(''ativo'', IntV 1)] else [])
          @ (if ''created_at'' \<in> set (get_table_columns d ''categorias'')
             then [(''created_at'', TextV isonow)] else [])"
      have r: "map_of r ''nome'' = Some (TextV nome)" by (simp add: r_def)
      from assms Inr None have "run_sql (sql_insert ''categorias'' r) d = Done () d'"
        by (simp add: insert_categoria_safe_def Let_def r_def)
      then have ins: "sql_insert ''categorias'' r d = Inr d'"
        by (auto simp: run_sql_def split: sum.splits)
      from ins C have d': "d' = put_table ''categorias'' (C\<lparr>rows := rows C @ [new_row C r]\<rparr>) d"
        by (auto simp: sql_insert_def split: list.splits)
      have "getv (new_row C r) ''nome'' = TextV nome"
        using getv_new_row [OF nm r] by simp
      then show ?thesis using d' C zero nm idc
        by (auto simp: count_nome_def categorias_legivel_def)
    qed
  qed
  then show "count_nome d' n = (if n = nome \<and> count_nome d nome = 0 then 1 else count_nome d n)"
    and "categorias_legivel d'" by simp_all
qed

lemma inserir_categorias_count:
  "inserir_categorias isonow cats d = Done () d' \<Longrightarrow>
   count_nome d' n = (if count_nome d n = 0 \<and> n \<in> fst ` set cats then 1 else count_nome d n)"
proof (induction cats arbitrary: d)
  case Nil
  then show ?case by simp
next
  case (Cons x cats)
  obtain nome desc cor icone where x: "x = (nome, desc, cor, icone)" by (cases x) auto
  from Cons.prems x obtain d1 where
    s1: "insert_categoria_safe isonow nome desc cor icone d = Done () d1"
    and s2: "inserir_categorias isonow cats d1 = Done () d'"
    by (auto simp: and_then_def split: outcome.splits)
  from Cons.IH [OF s2] insert_categoria_safe_count(1) [OF s1, of n] x
  show ?case by auto
qed

lemma inserir_categorias_legivel:
  "inserir_categorias isonow cats d = Done () d' \<Longrightarrow> cats \<noteq> [] \<Longrightarrow> categorias_legivel d'"
proof (induction cats arbitrary: d)
  case Nil
  then show ?case by simp
next
  case (Cons x cats)
  obtain nome desc cor icone where x: "x = (nome, desc, cor, icone)" by (cases x) auto
  from Cons.prems x obtain d1 where
    s1: "insert_categoria_safe isonow nome desc cor icone d = Done () d1"
    and s2: "inserir_categorias isonow cats d1 = Done () d'"
    by (auto simp: and_then_def split: outcome.splits)
  show ?case
  proof (cases cats)
    case Nil
    with s2 have "d' = d1" by simp
    with insert_categoria_safe_count(2) [OF s1] show ?thesis by simp
  next
    case (Cons y ys)
    with Cons.IH [OF s2] show ?thesis by simp
  qed
qed

lemma inserir_categorias_present:
  "\<forall>n\<in>fst ` set cats. 0 < count_nome d n \<Longrightarrow> categorias_legivel d \<or> cats = [] \<Longrightarrow>
   inserir_categorias isonow cats d = Done () d"
proof (induction cats)
  case Nil
  then show ?case by simp
next
  case (Cons x cats)
  obtain nome desc cor icone where x: "x = (nome, desc, cor, icone)" by (cases x) auto
  from Cons.prems have leg: "categorias_legivel d" by simp
  from Cons.prems x have "0 < count_nome d nome" by simp
  from insert_categoria_safe_present_done [OF this leg]
  have "insert_categoria_safe isonow nome desc cor icone d = Done () d" .
  moreover have "inserir_categorias isonow cats d = Done () d"
    using Cons.IH Cons.prems leg by simp
  ultimately show ?case using x by (simp add: and_then_def)
qed

lemma inserir_categorias_returns:
  "categorias_legivel d \<Longrightarrow> \<exists>d'. inserir_categorias isonow cats d = Done () d'"
proof (induction cats arbitrary: d)
  case Nil
  then show ?case by simp
next
  case (Cons x cats)
  obtain nome desc cor icone where x: "x = (nome, desc, cor, icone)" by (cases x) auto
  from Cons.prems obtain C where C: "tabs d ''categorias'' = Some C"
    and nm: "''nome'' \<in> set (col_names C)" and idc: "''id'' \<in> set (col_names C)"
    by (auto simp: categorias_legivel_def split: option.splits)
  have "\<exists>d1. insert_categoria_safe isonow nome desc cor icone d = Done () d1"
  proof (cases "sql_select_first ''categorias'' ''id'' ''nome'' (TextV nome) d")
    case (Inl e)
    with select_first_cases(3) Cons.prems show ?thesis by blast
  next
    case (Inr y)
    show ?thesis
    proof (cases y)
      case (Some i)
      with Inr show ?thesis by (simp add: insert_categoria_safe_def)
    next
      case None
      with Inr C nm show ?thesis
        by (auto simp: insert_categoria_safe_def run_sql_def sql_insert_def Let_def
            get_table_columns_def filter_empty_conv split: list.splits)
    qed
  qed
  then obtain d1 where s1: "insert_categoria_safe isonow nome desc cor icone d = Done () d1" ..
  from insert_categoria_safe_count(2) [OF s1] Cons.IH obtain d'
    where "inserir_categorias isonow cats d1 = Done () d'" by blast
  with s1 x show ?case by (simp add: and_then_def)
qed

text \<open>
  Claim C9. If \<^verbatim>\<open>categorias\<close> already has a row with the given \<^verbatim>\<open>nome\<close>,
  \<^verbatim>\<open>insert_categoria_safe\<close> leaves the database as it is. Hence a seeding pass that returns
  gives every listed name that was missing exactly one row and changes the number of rows
  of no other name, and a further pass (at any later time) returns the same database: no
  number of passes creates two rows with the same \<^verbatim>\<open>nome\<close>. The pass does return whenever
  \<^verbatim>\<open>categorias\<close> has the columns \<^verbatim>\<open>id\<close> and \<^verbatim>\<open>nome\<close>.
\<close>

theorem seed_categorias_idempotent:
  "(0 < count_nome d nome \<longrightarrow>
      db_of (insert_categoria_safe isonow nome descr cor icone d) = d) \<and>
   (inserir_categorias isonow cats d = Done () d' \<longrightarrow>
      count_nome d' n = (if count_nome d n = 0 \<and> n \<in> fst ` set cats then 1 else count_nome d n) \<and>
      inserir_categorias isonow2 cats d' = Done () d') \<and>
   (categorias_legivel d \<longrightarrow> (\<exists>d1. inserir_categorias isonow cats d = Done () d1))"
proof (intro conjI impI)
  assume "0 < count_nome d nome"
  then show "db_of (insert_categoria_safe isonow nome descr cor icone d) = d"
    by (rule insert_categoria_safe_present)
next
  assume a: "inserir_categorias isonow cats d = Done () d'"
  then show "count_nome d' n
      = (if count_nome d n = 0 \<and> n \<in> fst ` set cats then 1 else count_nome d n)"
    by (rule inserir_categorias_count)
  have "\<forall>m\<in>fst ` set cats. 0 < count_nome d' m"
    using inserir_categorias_count [OF a] by auto
  moreover have "categorias_legivel d' \<or> cats = []"
    using inserir_categorias_legivel [OF a] by blast
  ultimately show "inserir_categorias isonow2 cats d' = Done () d'"
    by (rule inserir_categorias_present)
next
  assume "categorias_legivel d"
  then show "\<exists>d1. inserir_categorias isonow cats d = Done () d1"
    by (rule inserir_categorias_returns)
qed

theorem seed_categorias_idempotent_witness:
  "0 < count_nome uma_categoria ''Lazer'' \<and>
   db_of (insert_categoria_safe ''I0'' ''Lazer'' ''Cinema, restaurantes, viagens'' ''#e83e8c''
            ''fas fa-gamepad'' uma_categoria) = uma_categoria \<and>
   categorias_legivel uma_categoria \<and>
   inserir_categorias ''I0'' categorias_padrao uma_categoria
     = Done () (db_of (inserir_categorias ''I0'' categorias_padrao uma_categoria)) \<and>
   count_nome (db_of (inserir_categorias ''I0'' categorias_padrao uma_categoria)) ''Lazer'' = 1 \<and>
   count_nome (db_of (inserir_categorias ''I0'' categorias_padrao uma_categoria)) ''Moradia'' = 1 \<and>
   inserir_categorias ''I1'' categorias_padrao
       (db_of (inserir_categorias ''I0'' categorias_padrao uma_categoria))
     = Done () (db_of (inserir_categorias ''I0'' categorias_padrao uma_categoria))"
proof -
  have lazer: "count_nome uma_categoria ''Lazer'' = 1"
    by (simp add: count_nome_def uma_categoria_def getv_def)
  have moradia: "count_nome uma_categoria ''Moradia'' = 0"
    by (simp add: count_nome_def uma_categoria_def getv_def)
  have leg: "categorias_legivel uma_categoria"
    by (simp add: categorias_legivel_def uma_categoria_def col_names_def)
  have inl: "''Moradia'' \<in> fst ` set categorias_padrao"
    by (simp add: categorias_padrao_def)
  from seed_categorias_idempotent [of uma_categoria "''Lazer''" "''I0''" "''x''" "''y''" "''z''"
      categorias_padrao uma_categoria "''Lazer''" "''I1''"] leg
  obtain d1 where d1: "inserir_categorias ''I0'' categorias_padrao uma_categoria = Done () d1"
    by blast
  from seed_categorias_idempotent [of uma_categoria "''Lazer''" "''I0''"
      "''Cinema, restaurantes, viagens''" "''#e83e8c''" "''fas fa-gamepad''"
      categorias_padrao d1 "''Lazer''" "''I1''"]
    seed_categorias_idempotent [of uma_categoria "''Lazer''" "''I0''" "''x''" "''y''" "''z''"
      categorias_padrao d1 "''Moradia''" "''I1''"]
    d1 lazer moradia leg inl
  show ?thesis by simp
qed

section \<open>The rebuild of the users table\<close>

lemma run_sql_Done: "run_sql f d = Done u d' \<longleftrightarrow> f d = Inr d'"
  by (auto simp: run_sql_def split: sum.splits)

lemma and_then_Done:
  "and_then r f = Done y d' \<longleftrightarrow> (\<exists>x d1. r = Done x d1 \<and> f x d1 = Done y d')"
  by (cases r) (auto simp: and_then_def)

lemma drop_temp_tables_Done:
  "\<exists>d'. drop_temp_tables ts d = Done () d' \<and>
        (\<forall>t. tabs d' t = (if t \<in> set ts then None else tabs d t))"
proof (induction ts arbitrary: d)
  case Nil
  then show ?case by simp
next
  case (Cons t ts)
  show ?case
  proof (cases "table_exists d t")
    case True
    let ?d1 = "d\<lparr>tabs := (tabs d)(t := None), idxs := filter (\<lambda>(n, u). u \<noteq> t) (idxs d)\<rparr>"
    from True have "run_sql (sql_drop_table t) d = Done () ?d1"
      by (simp add: run_sql_def sql_drop_table_def table_exists_def)
    moreover from Cons.IH [of ?d1] obtain d' where "drop_temp_tables ts ?d1 = Done () d'"
      "\<forall>u. tabs d' u = (if u \<in> set ts then None else tabs ?d1 u)" by blast
    ultimately show ?thesis using True by (auto simp: and_then_def)
  next
    case False
    from Cons.IH [of d] obtain d' where "drop_temp_tables ts d = Done () d'"
      "\<forall>u. tabs d' u = (if u \<in> set ts then None else tabs d u)" by blast
    then show ?thesis using False by (auto simp: table_exists_def)
  qed
qed

lemma cleanup_temp_tables_Done: "cleanup_temp_tables d = Done () (without_temp d)"
  using drop_temp_tables_Done [of "[''users_new'', ''despesas_new'', ''categorias_new'']" d]
  by (auto simp: without_temp_def cleanup_temp_tables_def)

lemma tabs_without_temp:
  "tabs (without_temp d) t
     = (if t \<in> {''users_new'', ''despesas_new'', ''categorias_new''} then None else tabs d t)"
  using drop_temp_tables_Done [of "[''users_new'', ''despesas_new'', ''categorias_new'']" d]
  by (auto simp: without_temp_def cleanup_temp_tables_def)

lemma drop_temp_tables_absent:
  "\<forall>t\<in>set ts. tabs d t = None \<Longrightarrow> drop_temp_tables ts d = Done () d"
  by (induction ts) (auto simp: table_exists_def)

lemma without_temp_idem: "without_temp (without_temp d) = without_temp d"
proof -
  have "drop_temp_tables [''users_new'', ''despesas_new'', ''categorias_new''] (without_temp d)
          = Done () (without_temp d)"
    by (rule drop_temp_tables_absent) (simp add: tabs_without_temp)
  then show ?thesis by (simp add: without_temp_def [of "without_temp d"] cleanup_temp_tables_def)
qed

text \<open>A table that is absent stays absent under every statement but its own creation.\<close>

lemma absent_prims:
  "sql_add_column refuse t c v d = Inr d' \<Longrightarrow> tabs d x = None \<Longrightarrow> tabs d' x = None"
  "sql_update_null t c v d = Inr d' \<Longrightarrow> tabs d x = None \<Longrightarrow> tabs d' x = None"
  "sql_insert t r d = Inr d' \<Longrightarrow> tabs d x = None \<Longrightarrow> tabs d' x = None"
  "sql_update_where t used c v f d = Inr d' \<Longrightarrow> tabs d x = None \<Longrightarrow> tabs d' x = None"
  "sql_create_index n t c d = Inr d' \<Longrightarrow> tabs d x = None \<Longrightarrow> tabs d' x = None"
  "sql_create_table t cs k d = Inr d' \<Longrightarrow> x \<noteq> t \<Longrightarrow> tabs d x = None \<Longrightarrow> tabs d' x = None"
  by (auto simp: sql_add_column_def sql_update_null_def sql_insert_def sql_update_where_def
      sql_create_index_def sql_create_table_def split: option.splits if_splits list.splits)

lemma absent_safe_add_column_v3:
  "safe_add_column_v3 refuse now t c ty dv d = Done b d' \<Longrightarrow> tabs d x = None \<Longrightarrow>
   tabs d' x = None"
  by (auto simp: safe_add_column_v3_def and_then_Done run_sql_Done
      dest: absent_prims split: if_splits)

lemma absent_add_columns_v3:
  "add_columns_v3 refuse now t cs d = Done u d' \<Longrightarrow> tabs d x = None \<Longrightarrow> tabs d' x = None"
proof (induction cs arbitrary: d)
  case Nil
  then show ?case by simp
next
  case (Cons a cs)
  obtain c ty dv where a: "a = (c, ty, dv)" by (cases a) auto
  from Cons.prems a obtain b d1 where "safe_add_column_v3 refuse now t c ty dv d = Done b d1"
    "add_columns_v3 refuse now t cs d1 = Done u d'" by (auto simp: and_then_Done)
  then show ?case using Cons.IH Cons.prems(2) absent_safe_add_column_v3 by blast
qed

lemma absent_create_if_missing:
  "create_if_missing t cs d = Done u d' \<Longrightarrow> x \<noteq> t \<Longrightarrow> tabs d x = None \<Longrightarrow> tabs d' x = None"
  by (auto simp: create_if_missing_def run_sql_Done dest: absent_prims split: if_splits)

lemma absent_migrate_categorias_table:
  "migrate_categorias_table refuse now d = Done u d' \<Longrightarrow> x \<noteq> ''categorias'' \<Longrightarrow>
   tabs d x = None \<Longrightarrow> tabs d' x = None"
  by (auto simp: migrate_categorias_table_def run_sql_Done simp del: add_columns_v3.simps
      dest: absent_prims absent_add_columns_v3 split: if_splits)

lemma absent_migrate_despesas:
  "migrate_despesas refuse now d = Done u d' \<Longrightarrow> x \<noteq> ''despesas'' \<Longrightarrow>
   tabs d x = None \<Longrightarrow> tabs d' x = None"
  by (auto simp: migrate_despesas_def run_sql_Done simp del: add_columns_v3.simps
      dest: absent_prims absent_add_columns_v3 split: if_splits)

lemma absent_inserir_usuario:
  "inserir_usuario now un ph pf nm em d = Done u d' \<Longrightarrow> tabs d x = None \<Longrightarrow> tabs d' x = None"
  by (auto simp: inserir_usuario_def run_sql_Done dest: absent_prims
      split: sum.splits option.splits)

lemma absent_inserir_usuarios:
  "inserir_usuarios now us d = Done u d' \<Longrightarrow> tabs d x = None \<Longrightarrow> tabs d' x = None"
proof (induction us arbitrary: d)
  case Nil
  then show ?case by simp
next
  case (Cons a us)
  obtain un ph pf nm em where a: "a = (un, ph, pf, nm, em)" by (cases a) auto
  from Cons.prems a obtain b d1 where "inserir_usuario now un ph pf nm em d = Done b d1"
    "inserir_usuarios now us d1 = Done u d'" by (auto simp: and_then_Done)
  then show ?case using Cons.IH Cons.prems(2) absent_inserir_usuario by blast
qed

lemma absent_insert_categoria_safe:
  "insert_categoria_safe isonow nome descr cor icone d = Done u d' \<Longrightarrow> tabs d x = None \<Longrightarrow>
   tabs d' x = None"
  by (auto simp: insert_categoria_safe_def run_sql_Done Let_def dest: absent_prims
      split: sum.splits option.splits)

lemma absent_inserir_categorias:
  "inserir_categorias isonow cats d = Done u d' \<Longrightarrow> tabs d x = None \<Longrightarrow> tabs d' x = None"
proof (induction cats arbitrary: d)
  case Nil
  then show ?case by simp
next
  case (Cons a cats)
  obtain nome descr cor icone where a: "a = (nome, descr, cor, icone)" by (cases a) auto
  from Cons.prems a obtain b d1 where
    "insert_categoria_safe isonow nome descr cor icone d = Done b d1"
    "inserir_categorias isonow cats d1 = Done u d'" by (auto simp: and_then_Done)
  then show ?case using Cons.IH Cons.prems(2) absent_insert_categoria_safe by blast
qed

lemma absent_inserir_membros:
  "inserir_membros now g m ids d = Done u d' \<Longrightarrow> tabs d x = None \<Longrightarrow> tabs d' x = None"
proof (induction ids arbitrary: d)
  case Nil
  then show ?case by simp
next
  case (Cons a ids)
  from Cons.prems obtain d1 where
    "sql_insert ''grupo_membros''
       [(''grupo_id'', g), (''user_id'', a), (''papel'', TextV ''membro''),
        (''adicionado_por'', m), (''created_at'', TextV now)] d = Inr d1"
    "inserir_membros now g m ids d1 = Done u d'" by (auto simp: and_then_Done run_sql_Done)
  then show ?case using Cons.IH Cons.prems(2) absent_prims(3) by blast
qed

lemma absent_inserir_grupo_padrao:
  "inserir_grupo_padrao now d = Done u d' \<Longrightarrow> tabs d x = None \<Longrightarrow> tabs d' x = None"
  by (auto simp: inserir_grupo_padrao_def and_then_Done run_sql_Done Let_def
      dest: absent_prims absent_inserir_membros split: sum.splits option.splits)

lemma absent_criar_indices:
  "criar_indices ix d = Done u d' \<Longrightarrow> tabs d x = None \<Longrightarrow> tabs d' x = None"
proof (induction ix arbitrary: d)
  case Nil
  then show ?case by simp
next
  case (Cons a ix)
  obtain n t c where a: "a = (n, t, c)" by (cases a) auto
  from Cons.prems a obtain d1 where "sql_create_index n t c d = Inr d1"
    "criar_indices ix d1 = Done u d'" by (auto simp: and_then_Done run_sql_Done)
  then show ?case using Cons.IH Cons.prems(2) absent_prims(5) by blast
qed

text \<open>What an inserted row holds: the value given for a column, but for a null primary
  key.\<close>

lemma new_row_agrees:
  assumes c: "c \<in> set (col_names T)" and r: "c \<in> fst ` set r"
  shows "(pk T = Some c \<and> getv r c = Null) \<or> getv (new_row T r) c = getv r c"
proof -
  from c have "map_of (cols T) c \<noteq> None"
    by (simp add: col_names_def map_of_eq_None_iff)
  then obtain dflt where d: "map_of (cols T) c = Some dflt" by auto
  from r have "map_of r c \<noteq> None" by (simp add: map_of_eq_None_iff)
  then obtain w where w: "map_of r c = Some w" by auto
  show ?thesis using d w
    by (auto simp: new_row_def getv_def map_of_map_key new_cell_def)
qed

lemma insert_all_rows:
  assumes "tabs d t = Some T" and "\<forall>r\<in>set rs. set (map fst r) \<subseteq> set (col_names T)"
  shows "\<exists>new. insert_all t rs d = Inr (put_table t (T\<lparr>rows := rows T @ new\<rparr>) d) \<and>
           list_all2 (\<lambda>n r. \<forall>c\<in>fst ` set r.
                        (pk T = Some c \<and> getv r c = Null) \<or> getv n c = getv r c) new rs"
  using assms
proof (induction rs arbitrary: d T)
  case Nil
  then have "put_table t (T\<lparr>rows := rows T @ []\<rparr>) d = d"
    by (simp add: put_table_def fun_upd_idem)
  then show ?case by (intro exI [of _ "[]"]) simp
next
  case (Cons r rs)
  let ?T1 = "T\<lparr>rows := rows T @ [new_row T r]\<rparr>"
  let ?d1 = "put_table t ?T1 d"
  from Cons.prems have sub: "set (map fst r) \<subseteq> set (col_names T)" by simp
  then have "filter (\<lambda>c. c \<notin> set (col_names T)) (map fst r) = []"
    by (auto simp: filter_empty_conv)
  with Cons.prems(1) have ins: "sql_insert t r d = Inr ?d1" by (simp add: sql_insert_def)
  have "tabs ?d1 t = Some ?T1" by simp
  moreover have "\<forall>r\<in>set rs. set (map fst r) \<subseteq> set (col_names ?T1)" using Cons.prems(2) by simp
  ultimately obtain new where
    new: "insert_all t rs ?d1 = Inr (put_table t (?T1\<lparr>rows := rows ?T1 @ new\<rparr>) ?d1)"
    and ag: "list_all2 (\<lambda>n r. \<forall>c\<in>fst ` set r.
                (pk ?T1 = Some c \<and> getv r c = Null) \<or> getv n c = getv r c) new rs"
    using Cons.IH by blast
  have first: "\<forall>c\<in>fst ` set r. (pk T = Some c \<and> getv r c = Null) \<or> getv (new_row T r) c = getv r c"
    using new_row_agrees [of _ T r] sub by auto
  have "insert_all t (r # rs) d = Inr (put_table t (T\<lparr>rows := rows T @ (new_row T r # new)\<rparr>) d)"
    using ins new by simp
  moreover have "list_all2 (\<lambda>n r. \<forall>c\<in>fst ` set r.
                (pk T = Some c \<and> getv r c = Null) \<or> getv n c = getv r c) (new_row T r # new) (r # rs)"
    using first ag by simp
  ultimately show ?case by blast
qed

lemma copy_row_keys: "map fst (copy_row now r) = map fst users_columns"
  by (simp add: copy_row_def users_columns_def)

lemma list_all2_map_eq: "list_all2 (\<lambda>x y. f x = g y) xs ys \<Longrightarrow> map f xs = map g ys"
  by (induction xs ys rule: list_all2_induct) simp_all

lemma copy_row_key_set: "fst ` set (copy_row now r) = fst ` set users_columns"
  by (simp add: copy_row_def users_columns_def)

lemma rebuild_users:
  assumes U: "tabs d1 ''users'' = Some U" and N: "tabs d1 ''users_new'' = None"
    and four: "set [''id'', ''username'', ''password_hash'', ''perfil''] \<subseteq> set (col_names U)"
  shows "\<exists>N d'. and_then (run_sql (sql_create_table ''users_new'' users_columns (Some ''id'')) d1)
                   (\<lambda>_ d3. and_then (run_sql (copy_users now) d3) (\<lambda>_. verify_and_swap))
                 = Done () d' \<and>
                 tabs d' ''users'' = Some N \<and> tabs d' ''users_new'' = None \<and> rebuilt now U N"
proof -
  let ?T0 = "\<lparr>cols = users_columns, pk = Some ''id'', rows = []\<rparr>"
  let ?d3 = "put_table ''users_new'' ?T0 d1"
  have cr: "run_sql (sql_create_table ''users_new'' users_columns (Some ''id'')) d1 = Done () ?d3"
    using N by (simp add: run_sql_def sql_create_table_def)
  have t3: "tabs ?d3 ''users_new'' = Some ?T0" by simp
  have keys: "\<forall>r\<in>set (map (copy_row now) (rows U)). set (map fst r) \<subseteq> set (col_names ?T0)"
    by (simp add: copy_row_key_set col_names_def)
  from insert_all_rows [OF t3 keys] obtain new where
    ins: "insert_all ''users_new'' (map (copy_row now) (rows U)) ?d3
            = Inr (put_table ''users_new'' (?T0\<lparr>rows := new\<rparr>) ?d3)"
    and ag: "list_all2 (\<lambda>n r. \<forall>c\<in>fst ` set r.
                (Some ''id'' = Some c \<and> getv r c = Null) \<or> getv n c = getv r c)
              new (map (copy_row now) (rows U))"
    by auto
  let ?N = "?T0\<lparr>rows := new\<rparr>"
  let ?d4 = "put_table ''users_new'' ?N d1"
  have d4: "put_table ''users_new'' ?N ?d3 = ?d4" by simp
  have fl: "filter (\<lambda>c. c \<notin> set (col_names U)) [''id'', ''username'', ''password_hash'', ''perfil''] = []"
    using four by (auto simp: filter_empty_conv)
  have cp: "run_sql (copy_users now) ?d3 = Done () ?d4"
    using U ins d4 fl by (simp add: run_sql_def copy_users_def del: put_table_twice)
  have len: "length new = length (rows U)" using ag by (auto dest: list_all2_lengthD)
  let ?d' = "?d4\<lparr>tabs := (tabs ?d4)(''users'' := None, ''users_new'' := None, ''users'' \<mapsto> ?N),
               idxs := map (\<lambda>(n, u). (n, if u = ''users_new'' then ''users'' else u))
                         (filter (\<lambda>(n, u). u \<noteq> ''users'') (idxs ?d4))\<rparr>"
  have sw: "verify_and_swap ?d4 = Done () ?d'"
    using U len
    by (simp add: verify_and_swap_def sql_count_def and_then_def run_sql_def sql_drop_table_def
        sql_rename_table_def)
  have ag2: "list_all2 (\<lambda>n u. \<forall>c\<in>fst ` set users_columns.
                (Some ''id'' = Some c \<and> getv (copy_row now u) c = Null) \<or>
                getv n c = getv (copy_row now u) c) new (rows U)"
    using ag unfolding list_all2_map2 copy_row_key_set .
  have cols_eq: "map (\<lambda>r. getv r c) new = map (\<lambda>r. getv (copy_row now r) c) (rows U)"
    if "c \<in> fst ` set users_columns" and "c \<noteq> ''id''" for c
  proof (rule list_all2_map_eq, rule list_all2_mono [OF ag2])
    fix n u
    assume a: "\<forall>c\<in>fst ` set users_columns.
                (Some ''id'' = Some c \<and> getv (copy_row now u) c = Null) \<or>
                getv n c = getv (copy_row now u) c"
    from bspec [OF a that(1)] that(2) show "getv n c = getv (copy_row now u) c" by simp
  qed
  have idin: "''id'' \<in> fst ` set users_columns" by (simp add: users_columns_def)
  have idv: "getv (copy_row now u) ''id'' = getv u ''id''" for u
    by (simp add: copy_row_def getv_def)
  have ids: "list_all2 (\<lambda>n u. getv u ''id'' = Null \<or> getv n ''id'' = getv u ''id'') new (rows U)"
  proof (rule list_all2_mono [OF ag2])
    fix n u
    assume a: "\<forall>c\<in>fst ` set users_columns.
                (Some ''id'' = Some c \<and> getv (copy_row now u) c = Null) \<or>
                getv n c = getv (copy_row now u) c"
    from bspec [OF a idin] show "getv u ''id'' = Null \<or> getv n ''id'' = getv u ''id''" by (simp add: idv)
  qed
  have "rebuilt now U ?N"
    using ids cols_eq by (simp add: rebuilt_def users_columns_def)
  moreover have "tabs ?d' ''users'' = Some ?N" "tabs ?d' ''users_new'' = None" by simp_all
  moreover have "and_then (run_sql (sql_create_table ''users_new'' users_columns (Some ''id'')) d1)
                   (\<lambda>_ d3. and_then (run_sql (copy_users now) d3) (\<lambda>_. verify_and_swap))
                 = Done () ?d'"
    using cr cp sw by (simp add: and_then_def)
  ultimately show ?thesis by blast
qed

lemma copy_users_missing_column:
  assumes "tabs d ''users'' = Some U"
    and "\<not> set [''id'', ''username'', ''password_hash'', ''perfil''] \<subseteq> set (col_names U)"
  shows "\<exists>e. copy_users now d = Inl e"
proof -
  from assms(2) have "filter (\<lambda>c. c \<notin> set (col_names U))
      [''id'', ''username'', ''password_hash'', ''perfil''] \<noteq> []"
    by (auto simp: filter_empty_conv)
  then obtain c cs where "filter (\<lambda>c. c \<notin> set (col_names U))
      [''id'', ''username'', ''password_hash'', ''perfil''] = c # cs"
    by (cases "filter (\<lambda>c. c \<notin> set (col_names U))
      [''id'', ''username'', ''password_hash'', ''perfil'']") auto
  with assms(1) show ?thesis by (auto simp: copy_users_def)
qed

lemma migrate_users_table_unfold:
  "migrate_users_table now d =
     (if tabs d ''users'' = None
      then run_sql (sql_create_table ''users'' users_columns (Some ''id'')) (without_temp d)
      else if needs_migration (without_temp d) then
         and_then (run_sql (sql_create_table ''users_new'' users_columns (Some ''id''))
                     (without_temp d))
           (\<lambda>_ d3. and_then (run_sql (copy_users now) d3) (\<lambda>_. verify_and_swap))
      else Done () (without_temp d))"
  by (simp add: migrate_users_table_def cleanup_temp_tables_Done and_then_def table_exists_def
      tabs_without_temp)

lemma migrate_users_table_result:
  assumes "migrate_users_table now d = Done () d1"
  shows "tabs d1 ''users_new'' = None \<and>
         (case tabs d ''users'' of
            None \<Rightarrow> tabs d1 ''users'' = Some \<lparr>cols = users_columns, pk = Some ''id'', rows = []\<rparr>
          | Some U \<Rightarrow> (\<exists>N. tabs d1 ''users'' = Some N \<and> (N = U \<or> rebuilt now U N)))"
proof (cases "tabs d ''users''")
  case None
  with assms show ?thesis
    by (auto simp: migrate_users_table_unfold run_sql_Done sql_create_table_def
        tabs_without_temp split: if_splits)
next
  case (Some U)
  have U1: "tabs (without_temp d) ''users'' = Some U" using Some by (simp add: tabs_without_temp)
  have N1: "tabs (without_temp d) ''users_new'' = None" by (simp add: tabs_without_temp)
  show ?thesis
  proof (cases "needs_migration (without_temp d)")
    case False
    with assms Some have "d1 = without_temp d" by (simp add: migrate_users_table_unfold)
    then show ?thesis using Some by (simp add: tabs_without_temp)
  next
    case True
    with assms Some have br: "and_then (run_sql (sql_create_table ''users_new'' users_columns
                 (Some ''id'')) (without_temp d))
           (\<lambda>_ d3. and_then (run_sql (copy_users now) d3) (\<lambda>_. verify_and_swap)) = Done () d1"
      by (simp add: migrate_users_table_unfold)
    show ?thesis
    proof (cases "set [''id'', ''username'', ''password_hash'', ''perfil''] \<subseteq> set (col_names U)")
      case True
      from rebuild_users [OF U1 N1 True, of now] br Some show ?thesis by auto
    next
      case False
      let ?d3 = "put_table ''users_new'' \<lparr>cols = users_columns, pk = Some ''id'', rows = []\<rparr>
                   (without_temp d)"
      have "tabs ?d3 ''users'' = Some U" using U1 by simp
      from copy_users_missing_column [OF this False] obtain e where "copy_users now ?d3 = Inl e"
        by blast
      moreover have "run_sql (sql_create_table ''users_new'' users_columns (Some ''id''))
                       (without_temp d) = Done () ?d3"
        using N1 by (simp add: run_sql_def sql_create_table_def)
      ultimately have "and_then (run_sql (sql_create_table ''users_new'' users_columns
                 (Some ''id'')) (without_temp d))
           (\<lambda>_ d3. and_then (run_sql (copy_users now) d3) (\<lambda>_. verify_and_swap))
           = Raised e ?d3"
        by (simp add: and_then_def run_sql_def)
      with br show ?thesis by simp
    qed
  qed
qed

lemma migrate_users_table_returns:
  assumes "tabs d ''users'' = Some U"
    and "set [''id'', ''username'', ''password_hash'', ''perfil''] \<subseteq> set (col_names U)"
  shows "\<exists>d2. migrate_users_table now d = Done () d2"
proof -
  have U1: "tabs (without_temp d) ''users'' = Some U" using assms(1) by (simp add: tabs_without_temp)
  have N1: "tabs (without_temp d) ''users_new'' = None" by (simp add: tabs_without_temp)
  from rebuild_users [OF U1 N1 assms(2), of now] assms(1) show ?thesis
    by (auto simp: migrate_users_table_unfold)
qed

lemma migrate_users_table_recovers:
  "migrate_users_table now d = migrate_users_table now (without_temp d)"
  by (simp add: migrate_users_table_unfold without_temp_idem tabs_without_temp)

lemma migrate_database_failure:
  "migrate_database hash refuse now isonow d = (False, d') \<Longrightarrow> d' = without_temp d"
  by (auto simp: migrate_database_def cleanup_temp_tables_Done split: outcome.splits)

lemma migrate_steps_no_users_new:
  assumes "migrate_steps hash refuse now isonow d = Done u d'"
  shows "tabs d' ''users_new'' = None"
proof -
  from assms obtain d1 d2 d3 d4 d5 d6 d7 d8 d9 d10 where
    s1: "migrate_users_table now d = Done () d1"
    and s2: "create_if_missing ''grupos'' grupos_columns d1 = Done () d2"
    and s3: "create_if_missing ''grupo_membros'' grupo_membros_columns d2 = Done () d3"
    and s4: "create_if_missing ''cartoes'' cartoes_columns d3 = Done () d4"
    and s5: "migrate_categorias_table refuse now d4 = Done () d5"
    and s6: "create_if_missing ''despesas_fixas'' despesas_fixas_columns d5 = Done () d6"
    and s7: "migrate_despesas refuse now d6 = Done () d7"
    and s8: "inserir_usuarios now (usuarios_padrao hash) d7 = Done () d8"
    and s9: "inserir_categorias isonow categorias_padrao d8 = Done () d9"
    and s10: "inserir_grupo_padrao now d9 = Done () d10"
    and s11: "criar_indices indices d10 = Done u d'"
    unfolding migrate_steps_def and_then_Done by auto
  from migrate_users_table_result [OF s1] have n1: "tabs d1 ''users_new'' = None" by simp
  have n2: "tabs d2 ''users_new'' = None" using absent_create_if_missing [OF s2 _ n1] by simp
  have n3: "tabs d3 ''users_new'' = None" using absent_create_if_missing [OF s3 _ n2] by simp
  have n4: "tabs d4 ''users_new'' = None" using absent_create_if_missing [OF s4 _ n3] by simp
  have n5: "tabs d5 ''users_new'' = None"
    using absent_migrate_categorias_table [OF s5 _ n4] by simp
  have n6: "tabs d6 ''users_new'' = None" using absent_create_if_missing [OF s6 _ n5] by simp
  have n7: "tabs d7 ''users_new'' = None" using absent_migrate_despesas [OF s7 _ n6] by simp
  have n8: "tabs d8 ''users_new'' = None" using absent_inserir_usuarios [OF s8 n7] .
  have n9: "tabs d9 ''users_new'' = None" using absent_inserir_categorias [OF s9 n8] .
  have n10: "tabs d10 ''users_new'' = None" using absent_inserir_grupo_padrao [OF s10 n9] .
  show ?thesis using absent_criar_indices [OF s11 n10] .
qed

text \<open>
  Claim C2. The rebuild of \<^verbatim>\<open>users\<close> is all or nothing. Whatever \<^verbatim>\<open>migrate_database\<close>
  returns, no \<^verbatim>\<open>users_new\<close> table is left; when it fails at any point, the rollback leaves
  the \<^verbatim>\<open>users\<close> table exactly as it was before the run. When \<^verbatim>\<open>migrate_users_table\<close> returns,
  \<^verbatim>\<open>users\<close> is the new empty table (if there was none), the original table (if it needed
  no migration) or the complete rebuild of the original. A \<^verbatim>\<open>users_new\<close> left by an
  earlier run is dropped first and has no influence on the result, and the rebuild
  returns whenever \<^verbatim>\<open>users\<close> has the four columns the copy reads.
\<close>

theorem users_rebuild_atomic:
  "(migrate_database hash refuse now isonow d = (ok, d') \<longrightarrow>
      tabs d' ''users_new'' = None \<and> (\<not> ok \<longrightarrow> tabs d' ''users'' = tabs d ''users'')) \<and>
   (migrate_users_table now d = Done () d1 \<longrightarrow>
      tabs d1 ''users_new'' = None \<and>
      (case tabs d ''users'' of
         None \<Rightarrow> tabs d1 ''users'' = Some \<lparr>cols = users_columns, pk = Some ''id'', rows = []\<rparr>
       | Some U \<Rightarrow> (\<exists>N. tabs d1 ''users'' = Some N \<and> (N = U \<or> rebuilt now U N)))) \<and>
   migrate_users_table now d = migrate_users_table now (without_temp d) \<and>
   (tabs d ''users'' = Some U0 \<and>
    set [''id'', ''username'', ''password_hash'', ''perfil''] \<subseteq> set (col_names U0) \<longrightarrow>
      (\<exists>d2. migrate_users_table now d = Done () d2))"
proof (intro conjI impI)
  assume a: "migrate_database hash refuse now isonow d = (ok, d')"
  show "tabs d' ''users_new'' = None"
  proof (cases ok)
    case True
    with a obtain u where "migrate_steps hash refuse now isonow d = Done u d'"
      by (auto simp: migrate_database_def split: outcome.splits)
    then show ?thesis by (rule migrate_steps_no_users_new)
  next
    case False
    with a have "migrate_database hash refuse now isonow d = (False, d')" by simp
    then have "d' = without_temp d" by (rule migrate_database_failure)
    then show ?thesis by (simp add: tabs_without_temp)
  qed
  show "tabs d' ''users'' = tabs d ''users''" if "\<not> ok"
  proof -
    from a that have "migrate_database hash refuse now isonow d = (False, d')" by simp
    then have "d' = without_temp d" by (rule migrate_database_failure)
    then show ?thesis by (simp add: tabs_without_temp)
  qed
next
  assume "migrate_users_table now d = Done () d1"
  from migrate_users_table_result [OF this]
  show "tabs d1 ''users_new'' = None"
    and "case tabs d ''users'' of
         None \<Rightarrow> tabs d1 ''users'' = Some \<lparr>cols = users_columns, pk = Some ''id'', rows = []\<rparr>
       | Some U \<Rightarrow> (\<exists>N. tabs d1 ''users'' = Some N \<and> (N = U \<or> rebuilt now U N))"
    by simp_all
next
  show "migrate_users_table now d = migrate_users_table now (without_temp d)"
    by (rule migrate_users_table_recovers)
next
  assume "tabs d ''users'' = Some U0 \<and>
    set [''id'', ''username'', ''password_hash'', ''perfil''] \<subseteq> set (col_names U0)"
  then show "\<exists>d2. migrate_users_table now d = Done () d2"
    using migrate_users_table_returns by blast
qed

theorem users_rebuild_atomic_witness:
  "fst (migrate_database sample_hash no_refusal ''T0'' ''I0'' users_sem_perfil) = False \<and>
   tabs (snd (migrate_database sample_hash no_refusal ''T0'' ''I0'' users_sem_perfil)) ''users_new''
     = None \<and>
   tabs (snd (migrate_database sample_hash no_refusal ''T0'' ''I0'' users_sem_perfil)) ''users''
     = tabs users_sem_perfil ''users'' \<and>
   tabs half_copied_db ''users'' = Some two_users \<and>
   tabs half_copied_db ''users_new'' = Some half_copied \<and>
   set [''id'', ''username'', ''password_hash'', ''perfil''] \<subseteq> set (col_names two_users) \<and>
   migrate_users_table ''T0'' half_copied_db
     = Done () (db_of (migrate_users_table ''T0'' half_copied_db)) \<and>
   tabs (db_of (migrate_users_table ''T0'' half_copied_db)) ''users_new'' = None \<and>
   (\<exists>N. tabs (db_of (migrate_users_table ''T0'' half_copied_db)) ''users'' = Some N \<and>
        (N = two_users \<or> rebuilt ''T0'' two_users N)) \<and>
   migrate_users_table ''T0'' half_copied_db
     = migrate_users_table ''T0'' (without_temp half_copied_db)"
proof -
  have f: "fst (migrate_database sample_hash no_refusal ''T0'' ''I0'' users_sem_perfil) = False"
    by code_simp
  then obtain d' where
    md: "migrate_database sample_hash no_refusal ''T0'' ''I0'' users_sem_perfil = (False, d')"
    by (cases "migrate_database sample_hash no_refusal ''T0'' ''I0'' users_sem_perfil") auto
  have U: "tabs half_copied_db ''users'' = Some two_users" by (simp add: half_copied_db_def)
  have N: "tabs half_copied_db ''users_new'' = Some half_copied" by (simp add: half_copied_db_def)
  have four: "set [''id'', ''username'', ''password_hash'', ''perfil''] \<subseteq> set (col_names two_users)"
    by (simp add: two_users_def col_names_def)
  note A = users_rebuild_atomic [of sample_hash no_refusal "''T0''" "''I0''" users_sem_perfil
      False d' users_sem_perfil two_users]
  have a: "tabs d' ''users_new'' = None \<and> (\<not> False \<longrightarrow> tabs d' ''users'' = tabs users_sem_perfil ''users'')"
    using A [THEN conjunct1, THEN mp, OF md] .
  then have a1: "tabs d' ''users_new'' = None"
    and a2: "tabs d' ''users'' = tabs users_sem_perfil ''users''" by simp_all
  note B0 = users_rebuild_atomic [of sample_hash no_refusal "''T0''" "''I0''" half_copied_db
      False half_copied_db half_copied_db two_users]
  from B0 [THEN conjunct2, THEN conjunct2, THEN conjunct2, THEN mp, OF conjI [OF U four]]
  obtain d2 where d2: "migrate_users_table ''T0'' half_copied_db = Done () d2" ..
  note B = users_rebuild_atomic [of sample_hash no_refusal "''T0''" "''I0''" half_copied_db
      False half_copied_db d2 two_users]
  have b: "tabs d2 ''users_new'' = None \<and>
      (case tabs half_copied_db ''users'' of
         None \<Rightarrow> tabs d2 ''users'' = Some \<lparr>cols = users_columns, pk = Some ''id'', rows = []\<rparr>
       | Some U \<Rightarrow> (\<exists>N. tabs d2 ''users'' = Some N \<and> (N = U \<or> rebuilt ''T0'' U N)))"
    using B [THEN conjunct2, THEN conjunct1, THEN mp, OF d2] .
  then have b1: "tabs d2 ''users_new'' = None"
    and b2: "\<exists>N. tabs d2 ''users'' = Some N \<and> (N = two_users \<or> rebuilt ''T0'' two_users N)"
    using U by simp_all
  have rec: "migrate_users_table ''T0'' half_copied_db
     = migrate_users_table ''T0'' (without_temp half_copied_db)"
    using B [THEN conjunct2, THEN conjunct2, THEN conjunct1] .
  have e1: "snd (migrate_database sample_hash no_refusal ''T0'' ''I0'' users_sem_perfil) = d'"
    using md by simp
  have e2: "db_of (migrate_users_table ''T0'' half_copied_db) = d2" using d2 by simp
  have d2': "migrate_users_table ''T0'' half_copied_db
     = Done () (db_of (migrate_users_table ''T0'' half_copied_db))" using d2 by simp
  show ?thesis
    unfolding e1 e2
    by (intro conjI) (fact f a1 a2 U N four d2 b1 b2 rec)+
qed

section \<open>One column addition of the reconciliation\<close>

lemma with_column_tabs [simp]:
  "tabs (with_column t T c dflt v d) u
     = (if u = t then Some (T\<lparr>cols := cols T @ [(c, dflt)], rows := map (AList.update c v) (rows T)\<rparr>)
        else tabs d u)"
  by (simp add: with_column_def)

lemma with_column_idxs [simp]: "idxs (with_column t T c dflt v d) = idxs d"
  by (simp add: with_column_def)

text \<open>The four ways \<^verbatim>\<open>safe_add_column\<close> can go.\<close>

lemma safe_add_column_cases:
  fixes s :: session and refuse now t c ty dv
  defines "s1 \<equiv> snd (safe_add_column refuse now t c ty dv s)"
  shows "(column_exists (cur s) t c \<and> s1 = report (ColumnAlreadyPresent t c) s)
       \<or> (tabs (cur s) t = None \<and> s1 = report (AddFailed t c (NoSuchTable t)) s)
       \<or> (\<exists>T. tabs (cur s) t = Some T \<and> c \<notin> set (col_names T) \<and> refuse t c \<and>
              s1 = report (AddFailed t c (AlterRefused t c)) s)
       \<or> (\<exists>T v. tabs (cur s) t = Some T \<and> c \<notin> set (col_names T) \<and> \<not> refuse t c \<and>
              s1 = report (ColumnAdded t c)
                     (s\<lparr>cur := with_column t T c (case dv of None \<Rightarrow> Null | Some w \<Rightarrow> w) v (cur s),
                        snap := (if c = ''created_at'' \<and> dv = None \<and> snap s = None
                                 then Some (with_column t T c Null Null (cur s)) else snap s)\<rparr>))"
proof (cases "column_exists (cur s) t c")
  case True
  then show ?thesis by (simp add: s1_def safe_add_column_def)
next
  case ne: False
  show ?thesis
  proof (cases "tabs (cur s) t")
    case None
    with ne show ?thesis
      by (simp add: s1_def safe_add_column_def exec_ddl_def sql_add_column_def)
  next
    case (Some T)
    with ne have c: "c \<notin> set (col_names T)"
      by (simp add: column_exists_def get_table_columns_def)
    show ?thesis
    proof (cases "refuse t c")
      case True
      with ne Some c show ?thesis
        by (simp add: s1_def safe_add_column_def exec_ddl_def sql_add_column_def)
    next
      case False
      note add = sql_add_column_ok [where refuse = refuse, OF Some c False]
      show ?thesis
      proof (cases "c = ''created_at'' \<and> dv = None")
        case True
        with ne Some c False add [of Null] have
          "s1 = report (ColumnAdded t c)
                  (s\<lparr>cur := with_column t T c Null (TextV now) (cur s),
                     snap := (if snap s = None then Some (with_column t T c Null Null (cur s))
                              else snap s)\<rparr>)"
          by (simp add: s1_def safe_add_column_def exec_ddl_def exec_dml_def
              sql_update_null_with_column)
        with True Some c False show ?thesis by auto
      next
        case nc: False
        with ne add [of "case dv of None \<Rightarrow> Null | Some w \<Rightarrow> w"] have
          "s1 = report (ColumnAdded t c)
                  (s\<lparr>cur := with_column t T c (case dv of None \<Rightarrow> Null | Some w \<Rightarrow> w)
                               (case dv of None \<Rightarrow> Null | Some w \<Rightarrow> w) (cur s)\<rparr>)"
          by (auto simp: s1_def safe_add_column_def exec_ddl_def)
        with nc Some c False show ?thesis by auto
      qed
    qed
  qed
qed

lemma column_exists_with_column:
  "tabs d t = Some T \<Longrightarrow>
   column_exists (with_column t T c dflt v d) u k \<longleftrightarrow> column_exists d u k \<or> (u = t \<and> k = c)"
  by (auto simp: column_exists_def get_table_columns_def col_names_def)

lemma table_exists_with_column:
  "tabs d t = Some T \<Longrightarrow> table_exists (with_column t T c dflt v d) u = table_exists d u"
  by (simp add: table_exists_def)

lemma report_simps [simp]:
  "cur (report a s) = cur s" "snap (report a s) = snap s" "out (report a s) = out s @ [a]"
  by (simp_all add: report_def)

lemma safe_add_column_step:
  fixes s :: session and refuse now t c ty dv
  defines "s1 \<equiv> snd (safe_add_column refuse now t c ty dv s)"
  shows "table_exists (cur s1) u = table_exists (cur s) u"
    and "column_exists (cur s1) u k \<longleftrightarrow>
           column_exists (cur s) u k \<or> (u = t \<and> k = c \<and> table_exists (cur s) t \<and> \<not> refuse t c)"
    and "set (out s) \<subseteq> set (out s1)"
    and "table_exists (cur s) t \<Longrightarrow> \<not> column_exists (cur s) t c \<Longrightarrow> refuse t c \<Longrightarrow>
           AddFailed t c (AlterRefused t c) \<in> set (out s1)"
proof -
  note cases = safe_add_column_cases [where s = s and t = t and c = c and refuse = refuse
      and now = now and ty = ty and dv = dv, folded s1_def]
  show "table_exists (cur s1) u = table_exists (cur s) u"
    using cases by (auto simp: table_exists_def split: if_splits)
  show "column_exists (cur s1) u k \<longleftrightarrow>
           column_exists (cur s) u k \<or> (u = t \<and> k = c \<and> table_exists (cur s) t \<and> \<not> refuse t c)"
    using cases
    by (elim disjE exE conjE) (auto simp: column_exists_with_column table_exists_def)
  show "set (out s) \<subseteq> set (out s1)"
    using cases by auto
  show "table_exists (cur s) t \<Longrightarrow> \<not> column_exists (cur s) t c \<Longrightarrow> refuse t c \<Longrightarrow>
           AddFailed t c (AlterRefused t c) \<in> set (out s1)"
    using cases by (auto simp: table_exists_def)
qed

lemma adicionar_colunas_all:
  "(\<forall>u. table_exists (cur (adicionar_colunas refuse now t cs s)) u = table_exists (cur s) u) \<and>
   (\<forall>u k. column_exists (cur (adicionar_colunas refuse now t cs s)) u k \<longleftrightarrow>
      column_exists (cur s) u k \<or>
      (u = t \<and> table_exists (cur s) t \<and> k \<in> fst ` set cs \<and> \<not> refuse t k)) \<and>
   set (out s) \<subseteq> set (out (adicionar_colunas refuse now t cs s)) \<and>
   (\<forall>k. table_exists (cur s) t \<longrightarrow> k \<in> fst ` set cs \<longrightarrow> \<not> column_exists (cur s) t k \<longrightarrow>
      refuse t k \<longrightarrow>
      AddFailed t k (AlterRefused t k) \<in> set (out (adicionar_colunas refuse now t cs s)))"
proof (induction cs arbitrary: s)
  case Nil
  show ?case by simp
next
  case (Cons a cs)
  obtain c ty dv where a: "a = (c, ty, dv)" by (cases a) auto
  define s1 where "s1 = snd (safe_add_column refuse now t c ty dv s)"
  note st = safe_add_column_step [where s = s and t = t and c = c and refuse = refuse
      and now = now and ty = ty and dv = dv, folded s1_def]
  have eq: "adicionar_colunas refuse now t (a # cs) s = adicionar_colunas refuse now t cs s1"
    by (simp add: a s1_def)
  note IH1 = Cons.IH [of s1, THEN conjunct1]
  note IH2 = Cons.IH [of s1, THEN conjunct2, THEN conjunct1]
  note IH3 = Cons.IH [of s1, THEN conjunct2, THEN conjunct2, THEN conjunct1]
  note IH4 = Cons.IH [of s1, THEN conjunct2, THEN conjunct2, THEN conjunct2]
  have 1: "\<forall>u. table_exists (cur (adicionar_colunas refuse now t cs s1)) u = table_exists (cur s) u"
    using IH1 st(1) by simp
  have 2: "\<forall>u k. column_exists (cur (adicionar_colunas refuse now t cs s1)) u k \<longleftrightarrow>
      column_exists (cur s) u k \<or>
      (u = t \<and> table_exists (cur s) t \<and> k \<in> fst ` set (a # cs) \<and> \<not> refuse t k)"
  proof (intro allI)
    fix u k
    have "column_exists (cur (adicionar_colunas refuse now t cs s1)) u k \<longleftrightarrow>
      column_exists (cur s1) u k \<or>
      (u = t \<and> table_exists (cur s1) t \<and> k \<in> fst ` set cs \<and> \<not> refuse t k)"
      using IH2 by simp
    also have "\<dots> \<longleftrightarrow> column_exists (cur s) u k \<or>
      (u = t \<and> table_exists (cur s) t \<and> k \<in> fst ` set (a # cs) \<and> \<not> refuse t k)"
      unfolding st(1) st(2) using a by auto
    finally show "column_exists (cur (adicionar_colunas refuse now t cs s1)) u k \<longleftrightarrow>
      column_exists (cur s) u k \<or>
      (u = t \<and> table_exists (cur s) t \<and> k \<in> fst ` set (a # cs) \<and> \<not> refuse t k)" .
  qed
  have 3: "set (out s) \<subseteq> set (out (adicionar_colunas refuse now t cs s1))"
    using IH3 st(3) by (rule_tac order_trans)
  have 4: "AddFailed t k (AlterRefused t k) \<in> set (out (adicionar_colunas refuse now t cs s1))"
    if te: "table_exists (cur s) t" and kin: "k \<in> fst ` set (a # cs)"
      and ne: "\<not> column_exists (cur s) t k" and rf: "refuse t k" for k
  proof (cases "k = c")
    case True
    with te ne rf st(4) have "AddFailed t k (AlterRefused t k) \<in> set (out s1)" by simp
    then show ?thesis using IH3 by (rule_tac subsetD)
  next
    case False
    with kin a have "k \<in> fst ` set cs" by auto
    moreover have "table_exists (cur s1) t" using te st(1) by simp
    moreover have "\<not> column_exists (cur s1) t k" using ne st(2) False by simp
    ultimately show ?thesis using IH4 rf by simp
  qed
  show ?case
    unfolding eq
  proof (intro conjI)
    show "\<forall>u. table_exists (cur (adicionar_colunas refuse now t cs s1)) u = table_exists (cur s) u"
      by (rule 1)
    show "\<forall>u k. column_exists (cur (adicionar_colunas refuse now t cs s1)) u k \<longleftrightarrow>
      column_exists (cur s) u k \<or>
      (u = t \<and> table_exists (cur s) t \<and> k \<in> fst ` set (a # cs) \<and> \<not> refuse t k)"
      by (rule 2)
    show "set (out s) \<subseteq> set (out (adicionar_colunas refuse now t cs s1))" by (rule 3)
    show "\<forall>k. table_exists (cur s) t \<longrightarrow> k \<in> fst ` set (a # cs) \<longrightarrow>
      \<not> column_exists (cur s) t k \<longrightarrow> refuse t k \<longrightarrow>
      AddFailed t k (AlterRefused t k) \<in> set (out (adicionar_colunas refuse now t cs s1))"
      using 4 by (intro allI impI)
  qed
qed

lemma verificar_tabelas_all:
  "(\<forall>u. table_exists (cur (verificar_tabelas refuse now es s)) u = table_exists (cur s) u) \<and>
   (\<forall>u k. column_exists (cur (verificar_tabelas refuse now es s)) u k \<longleftrightarrow>
      column_exists (cur s) u k \<or>
      (table_exists (cur s) u \<and> \<not> refuse u k \<and> (\<exists>ex. (u, ex) \<in> set es \<and> k \<in> fst ` set ex))) \<and>
   set (out s) \<subseteq> set (out (verificar_tabelas refuse now es s)) \<and>
   (\<forall>u ex k. (u, ex) \<in> set es \<longrightarrow> k \<in> fst ` set ex \<longrightarrow> table_exists (cur s) u \<longrightarrow>
      \<not> column_exists (cur s) u k \<longrightarrow> refuse u k \<longrightarrow>
      AddFailed u k (AlterRefused u k) \<in> set (out (verificar_tabelas refuse now es s)))"
proof (induction es arbitrary: s)
  case Nil
  show ?case by simp
next
  case (Cons a es)
  obtain t expected where a: "a = (t, expected)" by (cases a) auto
  define s1 where "s1 = (if table_exists (cur s) t
        then adicionar_colunas refuse now t expected
               (report (CurrentColumns t (get_table_columns (cur s) t)) s)
        else report (TableMissing t) s)"
  have eq: "verificar_tabelas refuse now (a # es) s = verificar_tabelas refuse now es s1"
    by (simp add: a s1_def)
  note AC = adicionar_colunas_all [of refuse now t expected
      "report (CurrentColumns t (get_table_columns (cur s) t)) s"]
  have T1: "table_exists (cur s1) u = table_exists (cur s) u" for u
    using AC [THEN conjunct1] by (simp add: s1_def)
  have C1: "column_exists (cur s1) u k \<longleftrightarrow> column_exists (cur s) u k \<or>
      (u = t \<and> table_exists (cur s) t \<and> k \<in> fst ` set expected \<and> \<not> refuse t k)" for u k
    using AC [THEN conjunct2, THEN conjunct1] by (simp add: s1_def)
  have O1: "set (out s) \<subseteq> set (out s1)"
    using AC [THEN conjunct2, THEN conjunct2, THEN conjunct1] by (auto simp: s1_def)
  have F1: "AddFailed t k (AlterRefused t k) \<in> set (out s1)"
    if "table_exists (cur s) t" "k \<in> fst ` set expected" "\<not> column_exists (cur s) t k"
      "refuse t k" for k
    using AC [THEN conjunct2, THEN conjunct2, THEN conjunct2] that by (simp add: s1_def)
  note IH1 = Cons.IH [of s1, THEN conjunct1]
  note IH2 = Cons.IH [of s1, THEN conjunct2, THEN conjunct1]
  note IH3 = Cons.IH [of s1, THEN conjunct2, THEN conjunct2, THEN conjunct1]
  note IH4 = Cons.IH [of s1, THEN conjunct2, THEN conjunct2, THEN conjunct2]
  have 1: "\<forall>u. table_exists (cur (verificar_tabelas refuse now es s1)) u = table_exists (cur s) u"
    using IH1 T1 by simp
  have 2: "\<forall>u k. column_exists (cur (verificar_tabelas refuse now es s1)) u k \<longleftrightarrow>
      column_exists (cur s) u k \<or>
      (table_exists (cur s) u \<and> \<not> refuse u k \<and>
       (\<exists>ex. (u, ex) \<in> set (a # es) \<and> k \<in> fst ` set ex))"
  proof (intro allI)
    fix u k
    have "column_exists (cur (verificar_tabelas refuse now es s1)) u k \<longleftrightarrow>
      column_exists (cur s1) u k \<or>
      (table_exists (cur s1) u \<and> \<not> refuse u k \<and> (\<exists>ex. (u, ex) \<in> set es \<and> k \<in> fst ` set ex))"
      using IH2 by simp
    also have "\<dots> \<longleftrightarrow> column_exists (cur s) u k \<or>
      (table_exists (cur s) u \<and> \<not> refuse u k \<and>
       (\<exists>ex. (u, ex) \<in> set (a # es) \<and> k \<in> fst ` set ex))"
      unfolding T1 C1 using a by auto
    finally show "column_exists (cur (verificar_tabelas refuse now es s1)) u k \<longleftrightarrow>
      column_exists (cur s) u k \<or>
      (table_exists (cur s) u \<and> \<not> refuse u k \<and>
       (\<exists>ex. (u, ex) \<in> set (a # es) \<and> k \<in> fst ` set ex))" .
  qed
  have 3: "set (out s) \<subseteq> set (out (verificar_tabelas refuse now es s1))"
    using O1 IH3 by (rule order_trans)
  have 4: "AddFailed u k (AlterRefused u k) \<in> set (out (verificar_tabelas refuse now es s1))"
    if uin: "(u, ex) \<in> set (a # es)" and kin: "k \<in> fst ` set ex"
      and te: "table_exists (cur s) u" and ne: "\<not> column_exists (cur s) u k"
      and rf: "refuse u k" for u ex k
  proof (cases "(u, ex) = (t, expected)")
    case True
    with F1 [of k] kin te ne rf have "AddFailed u k (AlterRefused u k) \<in> set (out s1)" by simp
    then show ?thesis using IH3 by (rule_tac subsetD)
  next
    case False
    with uin a have "(u, ex) \<in> set es" by auto
    moreover have "table_exists (cur s1) u" using te T1 by simp
    moreover have "\<not> column_exists (cur s1) u k" using ne rf C1 [of u k] by auto
    ultimately show ?thesis using IH4 kin rf by blast
  qed
  show ?case
    unfolding eq
  proof (intro conjI)
    show "\<forall>u. table_exists (cur (verificar_tabelas refuse now es s1)) u = table_exists (cur s) u"
      by (rule 1)
    show "\<forall>u k. column_exists (cur (verificar_tabelas refuse now es s1)) u k \<longleftrightarrow>
      column_exists (cur s) u k \<or>
      (table_exists (cur s) u \<and> \<not> refuse u k \<and>
       (\<exists>ex. (u, ex) \<in> set (a # es) \<and> k \<in> fst ` set ex))"
      by (rule 2)
    show "set (out s) \<subseteq> set (out (verificar_tabelas refuse now es s1))" by (rule 3)
    show "\<forall>u ex k. (u, ex) \<in> set (a # es) \<longrightarrow> k \<in> fst ` set ex \<longrightarrow> table_exists (cur s) u \<longrightarrow>
      \<not> column_exists (cur s) u k \<longrightarrow> refuse u k \<longrightarrow>
      AddFailed u k (AlterRefused u k) \<in> set (out (verificar_tabelas refuse now es s1))"
      using 4 by (intro allI impI)
  qed
qed

lemma safe_add_column_v3_refused:
  "table_exists d t \<Longrightarrow> \<not> column_exists d t c \<Longrightarrow> refuse t c \<Longrightarrow>
   safe_add_column_v3 refuse now t c ty dv d = Raised (AlterRefused t c) d"
  by (auto simp: safe_add_column_v3_def and_then_def run_sql_def sql_add_column_def
      table_exists_def column_exists_def get_table_columns_def)

text \<open>
  Claim C4 says that a failing column addition never aborts the rest of the run. That is
  not so in the migration script: its \<^verbatim>\<open>safe_add_column\<close> has no handler, the failure
  raises to \<^verbatim>\<open>migrate_database\<close>, and the whole migration is rolled back. Below, the
  engine refuses \<^verbatim>\<open>categorias.descricao\<close>; the run returns \<^verbatim>\<open>False\<close> and \<^verbatim>\<open>categorias\<close> has
  none of the other columns either, though nothing refuses them.
\<close>

theorem column_failure_counterexample:
  "fst (migrate_database sample_hash refuse_descricao ''T0'' ''I0'' categorias_antiga) = False \<and>
   get_table_columns
     (snd (migrate_database sample_hash refuse_descricao ''T0'' ''I0'' categorias_antiga))
     ''categorias'' = [''id'', ''nome''] \<and>
   \<not> refuse_descricao ''categorias'' ''cor''"
  by code_simp

text \<open>
  Claim C4, amended. In \<^verbatim>\<open>correcao_pos_migracao.py\<close> a failing column addition is caught,
  reported as failed, and the loop over the columns and tables goes on: after the loop,
  every expected column of every expected table that exists is present unless the engine
  refuses that very column, and a refused missing column is reported and still missing.
  In \<^verbatim>\<open>migrate_melhorias_corrigido_v3.py\<close> the failure raises out of \<^verbatim>\<open>safe_add_column\<close>
  (and the migration is rolled back).
\<close>

theorem column_failure_isolated:
  assumes "(t, expected) \<in> set es" and "(c, ty, dv) \<in> set expected"
    and "table_exists (cur s) t"
  shows "(\<not> refuse t c \<longrightarrow> column_exists (cur (verificar_tabelas refuse now es s)) t c) \<and>
         (refuse t c \<and> \<not> column_exists (cur s) t c \<longrightarrow>
            AddFailed t c (AlterRefused t c) \<in> set (out (verificar_tabelas refuse now es s)) \<and>
            \<not> column_exists (cur (verificar_tabelas refuse now es s)) t c \<and>
            safe_add_column_v3 refuse now t c ty dv (cur s) = Raised (AlterRefused t c) (cur s))"
proof -
  note V = verificar_tabelas_all [of refuse now es s]
  have cin: "c \<in> fst ` set expected" using assms(2) by force
  have col: "column_exists (cur (verificar_tabelas refuse now es s)) t c \<longleftrightarrow>
      column_exists (cur s) t c \<or>
      (table_exists (cur s) t \<and> \<not> refuse t c \<and> (\<exists>ex. (t, ex) \<in> set es \<and> c \<in> fst ` set ex))"
    using V [THEN conjunct2, THEN conjunct1] by simp
  have ex: "\<exists>ex. (t, ex) \<in> set es \<and> c \<in> fst ` set ex" using assms(1) cin by blast
  have a: "column_exists (cur (verificar_tabelas refuse now es s)) t c" if "\<not> refuse t c"
    using col ex assms(3) that by simp
  have b: "AddFailed t c (AlterRefused t c) \<in> set (out (verificar_tabelas refuse now es s))"
    if "refuse t c" "\<not> column_exists (cur s) t c"
    using V [THEN conjunct2, THEN conjunct2, THEN conjunct2] assms(1,3) cin that by blast
  have c: "\<not> column_exists (cur (verificar_tabelas refuse now es s)) t c"
    if "refuse t c" "\<not> column_exists (cur s) t c"
    using col that by simp
  show ?thesis
    using a b c safe_add_column_v3_refused [OF assms(3), of c refuse now ty dv] by blast
qed

theorem column_failure_isolated_witness:
  "table_exists categorias_antiga ''categorias'' \<and>
   refuse_descricao ''categorias'' ''descricao'' \<and>
   \<not> column_exists categorias_antiga ''categorias'' ''descricao'' \<and>
   column_exists
     (cur (verificar_tabelas refuse_descricao ''T0'' estruturas_esperadas
             \<lparr>cur = categorias_antiga, snap = None, out = []\<rparr>)) ''categorias'' ''cor'' \<and>
   AddFailed ''categorias'' ''descricao'' (AlterRefused ''categorias'' ''descricao'')
     \<in> set (out (verificar_tabelas refuse_descricao ''T0'' estruturas_esperadas
                   \<lparr>cur = categorias_antiga, snap = None, out = []\<rparr>)) \<and>
   \<not> column_exists
     (cur (verificar_tabelas refuse_descricao ''T0'' estruturas_esperadas
             \<lparr>cur = categorias_antiga, snap = None, out = []\<rparr>)) ''categorias'' ''descricao'' \<and>
   safe_add_column_v3 refuse_descricao ''T0'' ''categorias'' ''descricao'' ''TEXT'' None
       categorias_antiga
     = Raised (AlterRefused ''categorias'' ''descricao'') categorias_antiga"
proof -
  let ?s = "\<lparr>cur = categorias_antiga, snap = None, out = []\<rparr>"
  let ?ex = "[(''descricao'', ''TEXT'', None),
              (''cor'', ''TEXT'', Some (TextV ''#667eea'')),
              (''icone'', ''TEXT'', Some (TextV ''fas fa-tag'')),
              (''ativo'', ''BOOLEAN'', Some (IntV 1)),
              (''created_at'', ''TEXT'', None :: val option)]"
  have tin: "(''categorias'', ?ex) \<in> set estruturas_esperadas"
    by (simp add: estruturas_esperadas_def)
  have c1: "(''descricao'', ''TEXT'', None) \<in> set ?ex" by simp
  have c2: "(''cor'', ''TEXT'', Some (TextV ''#667eea'')) \<in> set ?ex" by simp
  have te: "table_exists (cur ?s) ''categorias''"
    by (simp add: table_exists_def categorias_antiga_def)
  have rf: "refuse_descricao ''categorias'' ''descricao''" by (simp add: refuse_descricao_def)
  have nrf: "\<not> refuse_descricao ''categorias'' ''cor''" by (simp add: refuse_descricao_def)
  have ne: "\<not> column_exists categorias_antiga ''categorias'' ''descricao''"
    by (simp add: column_exists_def get_table_columns_def categorias_antiga_def col_names_def)
  from column_failure_isolated [OF tin c1 te, of refuse_descricao "''T0''"]
    column_failure_isolated [OF tin c2 te, of refuse_descricao "''T0''"]
    te rf nrf ne
  show ?thesis by simp
qed

section \<open>What the reconciliation keeps\<close>

lemma table_kept_refl: "table_kept t T T"
  by (simp add: table_kept_def list_all2_same)

lemma table_kept_trans:
  assumes "table_kept t A B" and "table_kept t B C"
  shows "table_kept t A C"
proof -
  have sub: "set (col_names A) \<subseteq> set (col_names B)"
    using assms(1) by (auto simp: table_kept_def col_names_def dest: set_mono_prefix)
  have "list_all2 (\<lambda>r r'. \<forall>c\<in>set (col_names A).
                   getv r' c = getv r c \<or> (getv r c = Null \<and> backfill_column t c))
        (rows A) (rows C)"
  proof (rule list_all2_trans [where ?P1.0 = "\<lambda>r r'. \<forall>c\<in>set (col_names A).
                   getv r' c = getv r c \<or> (getv r c = Null \<and> backfill_column t c)"
        and ?P2.0 = "\<lambda>r r'. \<forall>c\<in>set (col_names B).
                   getv r' c = getv r c \<or> (getv r c = Null \<and> backfill_column t c)"])
    show "list_all2 (\<lambda>r r'. \<forall>c\<in>set (col_names A).
                   getv r' c = getv r c \<or> (getv r c = Null \<and> backfill_column t c))
        (rows A) (rows B)" using assms(1) by (simp add: table_kept_def)
    show "list_all2 (\<lambda>r r'. \<forall>c\<in>set (col_names B).
                   getv r' c = getv r c \<or> (getv r c = Null \<and> backfill_column t c))
        (rows B) (rows C)" using assms(2) by (simp add: table_kept_def)
  next
    fix a b c
    assume 1: "\<forall>k\<in>set (col_names A). getv b k = getv a k \<or> (getv a k = Null \<and> backfill_column t k)"
      and 2: "\<forall>k\<in>set (col_names B). getv c k = getv b k \<or> (getv b k = Null \<and> backfill_column t k)"
    show "\<forall>k\<in>set (col_names A). getv c k = getv a k \<or> (getv a k = Null \<and> backfill_column t k)"
    proof
      fix k assume k: "k \<in> set (col_names A)"
      with sub have kb: "k \<in> set (col_names B)" by (rule subsetD)
      from bspec [OF 1 k] bspec [OF 2 kb]
      show "getv c k = getv a k \<or> (getv a k = Null \<and> backfill_column t k)" by auto
    qed
  qed
  moreover have "prefix (cols A) (cols C)" using assms by (auto simp: table_kept_def)
  moreover have "pk C = pk A" using assms by (simp add: table_kept_def)
  ultimately show ?thesis by (simp add: table_kept_def)
qed

lemma db_kept_refl: "db_kept d d"
  by (auto simp: db_kept_def table_kept_refl split: option.splits)

lemma db_keptD:
  "db_kept a b \<Longrightarrow>
   (case tabs a t of None \<Rightarrow> tabs b t = None
    | Some T \<Rightarrow> (\<exists>T'. tabs b t = Some T' \<and> table_kept t T T'))"
  by (simp add: db_kept_def)

lemma db_kept_trans:
  assumes "db_kept a b" and "db_kept b c"
  shows "db_kept a c"
proof -
  have "case tabs a t of None \<Rightarrow> tabs c t = None
        | Some T \<Rightarrow> (\<exists>T'. tabs c t = Some T' \<and> table_kept t T T')" for t
  proof (cases "tabs a t")
    case None
    with db_keptD [OF assms(1), of t] have "tabs b t = None" by simp
    with db_keptD [OF assms(2), of t] have "tabs c t = None" by simp
    with None show ?thesis by simp
  next
    case (Some A)
    from db_keptD [OF assms(1), of t] Some obtain B where B: "tabs b t = Some B" "table_kept t A B" by auto
    from db_keptD [OF assms(2), of t] B obtain C where C: "tabs c t = Some C" "table_kept t B C" by auto
    from table_kept_trans [OF B(2) C(2)] C(1) Some show ?thesis by simp
  qed
  moreover have "idxs c = idxs a" using assms by (simp add: db_kept_def)
  ultimately show ?thesis unfolding db_kept_def by simp
qed

lemma db_kept_put_table:
  "tabs d t = Some T \<Longrightarrow> table_kept t T T' \<Longrightarrow> db_kept d (put_table t T' d)"
  by (auto simp: db_kept_def table_kept_refl split: option.splits)

lemma db_kept_with_column:
  assumes "tabs d t = Some T" and "c \<notin> set (col_names T)"
  shows "db_kept d (with_column t T c dflt v d)"
proof -
  have "table_kept t T (T\<lparr>cols := cols T @ [(c, dflt)], rows := map (AList.update c v) (rows T)\<rparr>)"
    using assms(2) by (auto simp: table_kept_def list_all2_map2 list_all2_same)
  from db_kept_put_table [OF assms(1) this] show ?thesis by (simp add: with_column_def)
qed

lemma db_kept_update_null:
  assumes "sql_update_null t c v d = Inr d'" and "backfill_column t c"
  shows "db_kept d d'"
proof -
  from assms(1) obtain T where T: "tabs d t = Some T"
    and d': "d' = put_table t
        (T\<lparr>rows := map (\<lambda>r. if getv r c = Null then AList.update c v r else r) (rows T)\<rparr>) d"
    by (auto simp: sql_update_null_def split: option.splits if_splits)
  have "table_kept t T
      (T\<lparr>rows := map (\<lambda>r. if getv r c = Null then AList.update c v r else r) (rows T)\<rparr>)"
    using assms(2) by (auto simp: table_kept_def list_all2_map2 list_all2_same)
  from db_kept_put_table [OF T this] d' show ?thesis by simp
qed

lemma session_keeps_report [simp]: "session_keeps d0 (report a s) = session_keeps d0 s"
  by (simp add: session_keeps_def)

lemma session_keeps_safe_add_column:
  assumes "session_keeps d0 s"
  shows "session_keeps d0 (snd (safe_add_column refuse now t c ty dv s))"
proof -
  note cases = safe_add_column_cases [where s = s and t = t and c = c and refuse = refuse
      and now = now and ty = ty and dv = dv]
  from cases show ?thesis
  proof (elim disjE exE conjE)
    fix T v
    assume T: "tabs (cur s) t = Some T" and c: "c \<notin> set (col_names T)"
      and eq: "snd (safe_add_column refuse now t c ty dv s) =
        report (ColumnAdded t c)
          (s\<lparr>cur := with_column t T c (case dv of None \<Rightarrow> Null | Some w \<Rightarrow> w) v (cur s),
             snap := (if c = ''created_at'' \<and> dv = None \<and> snap s = None
                      then Some (with_column t T c Null Null (cur s)) else snap s)\<rparr>)"
    have k0: "db_kept d0 (cur s)" using assms by (simp add: session_keeps_def)
    have k1: "db_kept d0 (with_column t T c dflt w (cur s))" for dflt w
      using db_kept_trans [OF k0 db_kept_with_column [OF T c]] .
    show ?thesis using assms k1 unfolding eq
      by (auto simp: session_keeps_def split: option.splits)
  qed (use assms in simp_all)
qed

lemma session_keeps_adicionar_colunas:
  "session_keeps d0 s \<Longrightarrow> session_keeps d0 (adicionar_colunas refuse now t cs s)"
proof (induction cs arbitrary: s)
  case Nil
  then show ?case by simp
next
  case (Cons a cs)
  obtain c ty dv where a: "a = (c, ty, dv)" by (cases a) auto
  from Cons.prems have "session_keeps d0 (snd (safe_add_column refuse now t c ty dv s))"
    by (rule session_keeps_safe_add_column)
  from Cons.IH [OF this] show ?case by (simp add: a)
qed

lemma session_keeps_verificar_tabelas:
  "session_keeps d0 s \<Longrightarrow> session_keeps d0 (verificar_tabelas refuse now es s)"
proof (induction es arbitrary: s)
  case Nil
  then show ?case by simp
next
  case (Cons a es)
  obtain t expected where a: "a = (t, expected)" by (cases a) auto
  have "session_keeps d0 (if table_exists (cur s) t
        then adicionar_colunas refuse now t expected
               (report (CurrentColumns t (get_table_columns (cur s) t)) s)
        else report (TableMissing t) s)"
    using Cons.prems by (simp add: session_keeps_adicionar_colunas)
  from Cons.IH [OF this] show ?case by (simp add: a)
qed

lemma session_keeps_corrigir_nulos:
  assumes "session_keeps d0 s" and "backfill_column t c"
  shows "session_keeps d0 (snd (corrigir_nulos t c v s))"
proof (cases "sql_count_null t c (cur s)")
  case (Inl e)
  with assms show ?thesis by (simp add: corrigir_nulos_def)
next
  case (Inr n)
  show ?thesis
  proof (cases "sql_update_null t c v (cur s)")
    case (Inl e)
    with Inr assms show ?thesis by (simp add: corrigir_nulos_def exec_dml_def)
  next
    case upd: (Inr d')
    have k0: "db_kept d0 (cur s)" using assms by (simp add: session_keeps_def)
    have "db_kept d0 d'" using db_kept_trans [OF k0 db_kept_update_null [OF upd assms(2)]] .
    with Inr upd assms k0 show ?thesis
      by (simp add: corrigir_nulos_def exec_dml_def session_keeps_def split: option.splits)
  qed
qed

lemma session_keeps_then_do:
  assumes "session_keeps d0 (snd r)" and "\<And>s. session_keeps d0 s \<Longrightarrow> session_keeps d0 (snd (f s))"
  shows "session_keeps d0 (snd (then_do r f))"
  using assms by (cases r) (auto simp: then_do_def split: option.splits)

lemma session_keeps_corrigir_created_at:
  "session_keeps d0 s \<Longrightarrow> set ts \<subseteq> set tabelas_com_created_at \<Longrightarrow>
   session_keeps d0 (snd (corrigir_created_at now ts s))"
proof (induction ts arbitrary: s)
  case Nil
  then show ?case by simp
next
  case (Cons t ts)
  have bf: "backfill_column t ''created_at''" using Cons.prems(2) by (simp add: backfill_column_def)
  have rest: "session_keeps d0 (snd (corrigir_created_at now ts s'))" if "session_keeps d0 s'" for s'
    using Cons.IH [OF that] Cons.prems(2) by simp
  show ?case
  proof (cases "table_exists (cur s) t \<and> column_exists (cur s) t ''created_at''")
    case True
    have "session_keeps d0 (snd (then_do (corrigir_nulos t ''created_at'' (TextV now) s)
            (corrigir_created_at now ts)))"
      by (rule session_keeps_then_do)
        (use session_keeps_corrigir_nulos [OF Cons.prems(1) bf] rest in auto)
    with True show ?thesis by simp
  next
    case False
    with rest [OF Cons.prems(1)] show ?thesis by auto
  qed
qed

lemma session_keeps_verificar_dados:
  assumes "session_keeps d0 s"
  shows "session_keeps d0 (snd (verificar_dados now s))"
  unfolding verificar_dados_def
proof (intro session_keeps_then_do)
  show "session_keeps d0 (snd (corrigir_nulos ''users'' ''ativo'' (IntV 1) s))"
    by (rule session_keeps_corrigir_nulos [OF assms]) (simp add: backfill_column_def)
next
  fix s1 assume s1: "session_keeps d0 s1"
  show "session_keeps d0 (snd (if table_exists (cur s1) ''categorias''
              then then_do (corrigir_nulos ''categorias'' ''ativo'' (IntV 1) s1)
                     (corrigir_nulos ''categorias'' ''cor'' (TextV ''#667eea''))
              else (None, s1)))"
  proof (cases "table_exists (cur s1) ''categorias''")
    case True
    have "session_keeps d0 (snd (then_do (corrigir_nulos ''categorias'' ''ativo'' (IntV 1) s1)
                     (corrigir_nulos ''categorias'' ''cor'' (TextV ''#667eea''))))"
    proof (rule session_keeps_then_do)
      show "session_keeps d0 (snd (corrigir_nulos ''categorias'' ''ativo'' (IntV 1) s1))"
        by (rule session_keeps_corrigir_nulos [OF s1]) (simp add: backfill_column_def)
    next
      fix s2 assume "session_keeps d0 s2"
      then show "session_keeps d0 (snd (corrigir_nulos ''categorias'' ''cor'' (TextV ''#667eea'') s2))"
        by (rule session_keeps_corrigir_nulos) (simp add: backfill_column_def)
    qed
    with True show ?thesis by simp
  next
    case False
    with s1 show ?thesis by simp
  qed
next
  fix s1 s2 :: session assume s2: "session_keeps d0 s2"
  show "session_keeps d0 (snd (if table_exists (cur s2) ''despesas_fixas''
              then corrigir_nulos ''despesas_fixas'' ''ativo'' (IntV 1) s2
              else (None, s2)))"
    using s2 session_keeps_corrigir_nulos [OF s2, of "''despesas_fixas''" "''ativo''" "IntV 1"]
    by (simp add: backfill_column_def)
next
  fix s1 s2 s3 :: session assume "session_keeps d0 s3"
  then show "session_keeps d0 (snd (corrigir_created_at now tabelas_com_created_at s3))"
    by (rule session_keeps_corrigir_created_at) simp
qed

lemma verificar_db_kept:
  assumes "verificar_e_corrigir_estrutura refuse now (Some d) = (ok, file1, log)"
  shows "\<exists>d1. file1 = Some d1 \<and> db_kept d d1"
proof -
  let ?s0 = "\<lparr>cur = d, snap = None, out = []\<rparr>"
  have "session_keeps d ?s0" by (simp add: session_keeps_def db_kept_refl)
  then have "session_keeps d (verificar_tabelas refuse now estruturas_esperadas ?s0)"
    by (rule session_keeps_verificar_tabelas)
  then have k: "session_keeps d (snd (verificar_dados now
      (verificar_tabelas refuse now estruturas_esperadas ?s0)))"
    by (rule session_keeps_verificar_dados)
  obtain r s where rs: "verificar_dados now
      (verificar_tabelas refuse now estruturas_esperadas ?s0) = (r, s)" by (cases "verificar_dados now
      (verificar_tabelas refuse now estruturas_esperadas ?s0)") auto
  with k have ks: "session_keeps d s" by simp
  then have "db_kept d (cur (commit s))" "db_kept d (cur (rollback s))"
    by (auto simp: session_keeps_def commit_def rollback_def split: option.splits)
  with assms rs show ?thesis
    by (cases r) (auto simp: verificar_e_corrigir_estrutura_def)
qed

text \<open>
  Claim C5 says that no run overwrites an existing non-null value. The migration script
  does: for each of its three default users that already exists it sets \<^verbatim>\<open>password_hash\<close>
  and \<^verbatim>\<open>perfil\<close> unconditionally (only \<^verbatim>\<open>nome_completo\<close> and \<^verbatim>\<open>email\<close> go through
  \<^verbatim>\<open>COALESCE\<close>). Below, \<^verbatim>\<open>daniela\<close> loses her profile \<^verbatim>\<open>Master\<close> and her password hash,
  whatever the hash function is (a stand-in here).
\<close>

theorem non_destructive_counterexample:
  "column_values ''users'' ''perfil'' (Some daniela_master) = [TextV ''Master''] \<and>
   column_values ''users'' ''password_hash'' (Some daniela_master) = [TextV ''abc''] \<and>
   fst (migrate_database sample_hash no_refusal ''T0'' ''I0'' daniela_master) = True \<and>
   take 1 (column_values ''users'' ''perfil''
     (Some (snd (migrate_database sample_hash no_refusal ''T0'' ''I0'' daniela_master))))
     = [TextV ''usuario''] \<and>
   take 1 (column_values ''users'' ''password_hash''
     (Some (snd (migrate_database sample_hash no_refusal ''T0'' ''I0'' daniela_master))))
     = [TextV ''sha256:senha123'']"
  by code_simp

text \<open>
  Claim C5, amended. A run of the reconciliation (\<^verbatim>\<open>correcao_pos_migracao.py\<close>), whether it
  succeeds or fails, creates and drops no table; in every table the columns present
  before come first and unchanged, the number of rows is the same, and every value in a
  column present before is as it was, except that a null may have been filled in one of
  the backfill columns (\<^verbatim>\<open>created_at\<close> of the seven tables, \<^verbatim>\<open>ativo\<close> of \<^verbatim>\<open>users\<close>,
  \<^verbatim>\<open>categorias\<close> and \<^verbatim>\<open>despesas_fixas\<close>, \<^verbatim>\<open>cor\<close> of \<^verbatim>\<open>categorias\<close>). No non-null value is
  overwritten. The migration script is not non-destructive in this sense: it rebuilds
  \<^verbatim>\<open>users\<close> and resets \<^verbatim>\<open>password_hash\<close> and \<^verbatim>\<open>perfil\<close> of its default users.
\<close>

theorem reconciliation_non_destructive:
  assumes "verificar_e_corrigir_estrutura refuse now (Some d) = (ok, file1, log)"
  shows "\<exists>d1. file1 = Some d1 \<and>
     (\<forall>t. case tabs d t of
            None \<Rightarrow> tabs d1 t = None
          | Some T \<Rightarrow>
              (\<exists>T1. tabs d1 t = Some T1 \<and> prefix (cols T) (cols T1) \<and>
                 length (rows T1) = length (rows T) \<and>
                 (\<forall>i<length (rows T). \<forall>c\<in>set (col_names T).
                     getv (rows T1 ! i) c = getv (rows T ! i) c \<or>
                     (getv (rows T ! i) c = Null \<and> backfill_column t c))))"
proof -
  from verificar_db_kept [OF assms] obtain d1 where f: "file1 = Some d1" and k: "db_kept d d1"
    by blast
  have "case tabs d t of
            None \<Rightarrow> tabs d1 t = None
          | Some T \<Rightarrow>
              (\<exists>T1. tabs d1 t = Some T1 \<and> prefix (cols T) (cols T1) \<and>
                 length (rows T1) = length (rows T) \<and>
                 (\<forall>i<length (rows T). \<forall>c\<in>set (col_names T).
                     getv (rows T1 ! i) c = getv (rows T ! i) c \<or>
                     (getv (rows T ! i) c = Null \<and> backfill_column t c)))" for t
  proof (cases "tabs d t")
    case None
    with db_keptD [OF k, of t] show ?thesis by simp
  next
    case (Some T)
    with db_keptD [OF k, of t] obtain T1 where T1: "tabs d1 t = Some T1" "table_kept t T T1"
      by auto
    from T1(2) have "prefix (cols T) (cols T1)" "length (rows T1) = length (rows T)"
      "\<forall>i<length (rows T). \<forall>c\<in>set (col_names T).
         getv (rows T1 ! i) c = getv (rows T ! i) c \<or>
         (getv (rows T ! i) c = Null \<and> backfill_column t c)"
      by (auto simp: table_kept_def list_all2_conv_all_nth)
    with T1(1) Some show ?thesis by simp
  qed
  with f show ?thesis by blast
qed

theorem reconciliation_non_destructive_witness:
  "fst (verificar_e_corrigir_estrutura no_refusal ''T0'' (Some com_users)) = True \<and>
   column_values ''users'' ''password_hash''
     (file_after (verificar_e_corrigir_estrutura no_refusal ''T0'' (Some com_users)))
     = [TextV ''abc'', TextV ''xyz''] \<and>
   column_values ''users'' ''perfil''
     (file_after (verificar_e_corrigir_estrutura no_refusal ''T0'' (Some com_users)))
     = [TextV ''Master'', Null] \<and>
   (\<exists>d1. file_after (verificar_e_corrigir_estrutura no_refusal ''T0'' (Some com_users)) = Some d1 \<and>
     (\<forall>t. case tabs com_users t of
            None \<Rightarrow> tabs d1 t = None
          | Some T \<Rightarrow>
              (\<exists>T1. tabs d1 t = Some T1 \<and> prefix (cols T) (cols T1) \<and>
                 length (rows T1) = length (rows T) \<and>
                 (\<forall>i<length (rows T). \<forall>c\<in>set (col_names T).
                     getv (rows T1 ! i) c = getv (rows T ! i) c \<or>
                     (getv (rows T ! i) c = Null \<and> backfill_column t c)))))"
proof -
  let ?r = "verificar_e_corrigir_estrutura no_refusal ''T0'' (Some com_users)"
  have e: "?r = (fst ?r, file_after ?r, report_of ?r)"
    by (simp add: file_after_def report_of_def)
  have a: "fst ?r = True" by code_simp
  have b: "column_values ''users'' ''password_hash'' (file_after ?r) = [TextV ''abc'', TextV ''xyz'']"
    by code_simp
  have c: "column_values ''users'' ''perfil'' (file_after ?r) = [TextV ''Master'', Null]"
    by code_simp
  from reconciliation_non_destructive [OF e] a b c show ?thesis by (intro conjI)
qed

end
